theory Spec2Isabelle
  imports Complex_Main "HOL-Library.Sublist"
begin

section \<open>Python values used by app.py\<close>

text \<open>
  A Python \<open>str\<close> is modelled as a \<open>string\<close>, one element per character, so that
  \<open>length\<close> is Python's \<open>len\<close>. The value returned by \<open>response.json()\<close> is any JSON
  value; a JSON object is an association list read with \<open>map_of\<close>, and \<open>JNull\<close> is
  Python's \<open>None\<close>.
\<close>

datatype json =
    JNull
  | JBool bool
  | JNum rat
  | JStr string
  | JList "json list"
  | JObj "(string \<times> json) list"

text \<open>
  The exceptions that the code can meet. \<open>RequestException\<close> carries \<open>str(e)\<close>, which
  \<open>scrape_url\<close> returns; \<open>PandasError\<close> is whatever \<open>pd.read_csv\<close> or \<open>pd.read_excel\<close>
  raises on a file it cannot parse.
\<close>

datatype py_exn =
    RequestException string
  | PandasError string
  | AttributeError
  | TypeError
  | IndexError
  | ValueError

text \<open>Truth value of a JSON value in a condition (\<open>if v:\<close>).\<close>

fun truthy :: "json \<Rightarrow> bool" where
  "truthy JNull = False"
| "truthy (JBool b) = b"
| "truthy (JNum q) = (q \<noteq> 0)"
| "truthy (JStr s) = (s \<noteq> [])"
| "truthy (JList xs) = (xs \<noteq> [])"
| "truthy (JObj kvs) = (kvs \<noteq> [])"

text \<open>\<open>len(v)\<close>: defined on strings, lists and dicts, \<open>TypeError\<close> on the rest.\<close>

fun py_len :: "json \<Rightarrow> py_exn + nat" where
  "py_len (JStr s) = Inr (length s)"
| "py_len (JList xs) = Inr (length xs)"
| "py_len (JObj kvs) = Inr (length (remdups (map fst kvs)))"
| "py_len JNull = Inl TypeError"
| "py_len (JBool b) = Inl TypeError"
| "py_len (JNum q) = Inl TypeError"

text \<open>\<open>d.get(k, dflt)\<close> on a dict.\<close>

definition dict_get :: "(string \<times> json) list \<Rightarrow> string \<Rightarrow> json \<Rightarrow> json" where
  "dict_get d k dflt = (case map_of d k of None \<Rightarrow> dflt | Some v \<Rightarrow> v)"

text \<open>
  \<open>result.get(k, dflt)\<close> where \<open>result\<close> is whatever the API returned: only a dict
  has a \<open>get\<close> attribute.
\<close>

fun py_get :: "json \<Rightarrow> string \<Rightarrow> json \<Rightarrow> py_exn + json" where
  "py_get (JObj d) k dflt = Inr (dict_get d k dflt)"
| "py_get v k dflt = Inl AttributeError"

text \<open>The expression \<open>a or b\<close>.\<close>

definition py_or :: "json \<Rightarrow> json \<Rightarrow> json" where
  "py_or a b = (if truthy a then a else b)"

section \<open>The record appended for a successful scrape (app.py, lines 159-166)\<close>

record scrape_result =
  url :: string
  title :: json
  description :: json
  content_length :: nat
  markdown_length :: nat
  full_result :: json

record scrape_error =
  err_url :: string
  error :: string

text \<open>
  \<open>len(result.get(k, '')) if result.get(k) else 0\<close>: the condition is evaluated first,
  the length only when it is true.
\<close>

definition field_length :: "json \<Rightarrow> string \<Rightarrow> py_exn + nat" where
  "field_length result k =
     (case py_get result k JNull of
        Inl e \<Rightarrow> Inl e
      | Inr c \<Rightarrow>
          if truthy c then
            (case py_get result k (JStr []) of Inl e \<Rightarrow> Inl e | Inr v \<Rightarrow> py_len v)
          else Inr 0)"

text \<open>The dict literal of lines 159-166; its entries are evaluated in order.\<close>

definition make_result :: "string \<Rightarrow> json \<Rightarrow> py_exn + scrape_result" where
  "make_result u result =
     (case py_get result ''title'' (JStr ''N/A'') of
        Inl e \<Rightarrow> Inl e
      | Inr t \<Rightarrow>
     (case py_get result ''description'' (JStr ''N/A'') of
        Inl e \<Rightarrow> Inl e
      | Inr d \<Rightarrow>
     (case field_length result ''text'' of
        Inl e \<Rightarrow> Inl e
      | Inr n \<Rightarrow>
     (case field_length result ''markdown'' of
        Inl e \<Rightarrow> Inl e
      | Inr m \<Rightarrow>
          Inr \<lparr>url = u, title = t, description = d, content_length = n,
               markdown_length = m, full_result = result\<rparr>))))"

section \<open>The scrape client (app.py, lines 45-65)\<close>

text \<open>
  The request that \<open>scrape_url\<close> sends: method, endpoint, the two headers and the two
  entries of the JSON body.
\<close>

record request =
  req_method :: string
  req_url :: string
  hdr_x_api_key :: string
  hdr_content_type :: string
  data_url :: string
  data_includeMarkdown :: bool

text \<open>
  What the \<open>requests\<close> library does with a request is an input of the model.
  \<open>requests.request\<close> either raises a \<open>RequestException\<close> (\<open>ConnFailed\<close>, with
  \<open>str(e)\<close>) or returns a response. \<open>response.json()\<close> either returns the parsed
  body or raises \<open>requests.exceptions.JSONDecodeError\<close>, which is a
  \<open>RequestException\<close> (\<open>BadBody\<close>, with \<open>str(e)\<close>).
\<close>

datatype body = JsonBody json | BadBody string

record response =
  status_code :: nat
  reason :: string
  resp_url :: string
  resp_body :: body

datatype http_reply = ConnFailed string | Response response

text \<open>\<open>str(n)\<close> for a status code.\<close>

fun str_nat :: "nat \<Rightarrow> string" where
  "str_nat n =
     (if n < 10 then [char_of (48 + n)]
      else str_nat (n div 10) @ [char_of (48 + n mod 10)])"

declare str_nat.simps [simp del]

text \<open>
  \<open>Response.raise_for_status\<close> of \<open>requests\<close>: an \<open>HTTPError\<close> for a status from 400
  to 599 and nothing otherwise. \<open>Some msg\<close> is the message of the error raised.
\<close>

definition raise_for_status :: "response \<Rightarrow> string option" where
  "raise_for_status r =
     (if 400 \<le> status_code r \<and> status_code r < 500 then
        Some (str_nat (status_code r) @ '' Client Error: '' @ reason r @ '' for url: '' @ resp_url r)
      else if 500 \<le> status_code r \<and> status_code r < 600 then
        Some (str_nat (status_code r) @ '' Server Error: '' @ reason r @ '' for url: '' @ resp_url r)
      else None)"

definition make_request :: "string \<Rightarrow> string \<Rightarrow> bool \<Rightarrow> request" where
  "make_request u key md =
     \<lparr>req_method = ''POST'', req_url = ''https://scrape.serper.dev'',
      hdr_x_api_key = key, hdr_content_type = ''application/json'',
      data_url = u, data_includeMarkdown = md\<rparr>"

text \<open>
  \<open>scrape_url\<close> returns the pair \<open>(result, error)\<close>; Python's \<open>None\<close> is \<open>JNull\<close> in
  the first component and \<open>None\<close> in the second.
\<close>

definition scrape_url ::
  "(request \<Rightarrow> http_reply) \<Rightarrow> string \<Rightarrow> string \<Rightarrow> bool \<Rightarrow> json \<times> string option" where
  "scrape_url send u key md =
     (case send (make_request u key md) of
        ConnFailed msg \<Rightarrow> (JNull, Some msg)
      | Response r \<Rightarrow>
          (case raise_for_status r of
             Some msg \<Rightarrow> (JNull, Some msg)
           | None \<Rightarrow>
               (case resp_body r of
                  JsonBody j \<Rightarrow> (j, None)
                | BadBody msg \<Rightarrow> (JNull, Some msg))))"

section \<open>The scrape loop (app.py, lines 140-170)\<close>

text \<open>
  A cell of the uploaded table: missing (\<open>NaN\<close>), text, or a number. The list of URLs
  is a list of cells, since \<open>tolist()\<close> returns whatever the column holds.
\<close>

datatype cell = NaN | CStr string | CNum rat

record config =
  api_key :: string
  include_markdown :: bool
  rate_limit :: rat

text \<open>
  The effects of the loop, in the order they happen: the progress update (\<open>i + 1\<close>,
  \<open>len(urls)\<close>, \<open>url[:50]\<close>), the HTTP call and \<open>time.sleep\<close>.
\<close>

datatype event = Progress nat nat string | HttpPost request | Sleep rat

record run_state =
  results :: "scrape_result list"
  errors :: "scrape_error list"
  trace :: "event list"

text \<open>
  Lines 153-166. \<open>if error:\<close> tests the truth value of the message, so \<open>None\<close> and the
  empty message both lead to the \<open>else\<close> branch.
\<close>

definition record_outcome :: "string \<Rightarrow> json \<times> string option \<Rightarrow> run_state \<Rightarrow> py_exn + run_state" where
  "record_outcome u out st =
     (case out of
        (result, Some msg) \<Rightarrow>
          if msg \<noteq> [] then Inr (st\<lparr>errors := errors st @ [\<lparr>err_url = u, error = msg\<rparr>]\<rparr>)
          else (case make_result u result of
                  Inl e \<Rightarrow> Inl e
                | Inr r \<Rightarrow> Inr (st\<lparr>results := results st @ [r]\<rparr>))
      | (result, None) \<Rightarrow>
          (case make_result u result of
             Inl e \<Rightarrow> Inl e
           | Inr r \<Rightarrow> Inr (st\<lparr>results := results st @ [r]\<rparr>)))"

text \<open>
  The loop over \<open>enumerate(urls)\<close>; \<open>n\<close> is \<open>len(urls)\<close> and \<open>i\<close> the index of the head
  of the remaining list. The \<open>i\<close>-th call of the run is answered by \<open>net i\<close>.
  \<open>url[:50]\<close> raises \<open>TypeError\<close> on a cell that is not text, and \<open>time.sleep\<close> raises
  \<open>ValueError\<close> on a negative length. An exception leaves the loop with the state
  reached so far.
\<close>

definition announce :: "config \<Rightarrow> nat \<Rightarrow> nat \<Rightarrow> string \<Rightarrow> run_state \<Rightarrow> run_state" where
  "announce cfg n i u st =
     st\<lparr>trace := trace st @
          [Progress (i + 1) n (take 50 u),
           HttpPost (make_request u (api_key cfg) (include_markdown cfg))]\<rparr>"

fun scrape_loop ::
  "(nat \<Rightarrow> request \<Rightarrow> http_reply) \<Rightarrow> config \<Rightarrow> nat \<Rightarrow> nat \<Rightarrow> cell list \<Rightarrow> run_state
     \<Rightarrow> py_exn \<times> run_state + run_state" where
  "scrape_loop net cfg n i [] st = Inr st"
| "scrape_loop net cfg n i (c # rest) st =
     (case c of
        CStr u \<Rightarrow>
          (case record_outcome u (scrape_url (net i) u (api_key cfg) (include_markdown cfg))
                  (announce cfg n i u st) of
             Inl e \<Rightarrow> Inl (e, announce cfg n i u st)
           | Inr st' \<Rightarrow>
               if int i < int n - 1 then
                 (if rate_limit cfg < 0 then Inl (ValueError, st')
                  else scrape_loop net cfg n (i + 1) rest
                         (st'\<lparr>trace := trace st' @ [Sleep (rate_limit cfg)]\<rparr>))
               else scrape_loop net cfg n (i + 1) rest st')
      | _ \<Rightarrow> Inl (TypeError, st))"

definition init_state :: run_state where
  "init_state = \<lparr>results = [], errors = [], trace = []\<rparr>"

definition run ::
  "(nat \<Rightarrow> request \<Rightarrow> http_reply) \<Rightarrow> config \<Rightarrow> cell list \<Rightarrow> py_exn \<times> run_state + run_state" where
  "run net cfg urls = scrape_loop net cfg (length urls) 0 urls init_state"

text \<open>The HTTP calls and the sleeps of a trace, in order.\<close>

fun posts :: "event list \<Rightarrow> request list" where
  "posts [] = []"
| "posts (HttpPost r # evs) = r # posts evs"
| "posts (ev # evs) = posts evs"

fun sleeps :: "event list \<Rightarrow> rat list" where
  "sleeps [] = []"
| "sleeps (Sleep d # evs) = d # sleeps evs"
| "sleeps (ev # evs) = sleeps evs"

text \<open>
  Time: \<open>dur k ev\<close> is how long the \<open>k\<close>-th effect of the run, \<open>ev\<close>, takes; the
  run takes the sum over its trace.
\<close>

fun elapsed_from :: "(nat \<Rightarrow> event \<Rightarrow> rat) \<Rightarrow> nat \<Rightarrow> event list \<Rightarrow> rat" where
  "elapsed_from dur k [] = 0"
| "elapsed_from dur k (ev # evs) = dur k ev + elapsed_from dur (k + 1) evs"

definition elapsed :: "(nat \<Rightarrow> event \<Rightarrow> rat) \<Rightarrow> event list \<Rightarrow> rat" where
  "elapsed dur evs = elapsed_from dur 0 evs"

section \<open>The URL extractor (app.py, lines 68-101)\<close>

text \<open>
  \<open>str.lower()\<close> on one character: the letters A to Z and, among the other characters
  that a \<open>char\<close> can hold, the capital letters from U+00C0 to U+00DE (all of that range
  but the multiplication sign U+00D7) move up by 32; every other character is unchanged.
\<close>

definition lower_char :: "char \<Rightarrow> char" where
  "lower_char c =
     (if (65 \<le> (of_char c :: nat) \<and> (of_char c :: nat) \<le> 90) \<or>
         (192 \<le> (of_char c :: nat) \<and> (of_char c :: nat) \<le> 222 \<and> (of_char c :: nat) \<noteq> 215)
      then char_of ((of_char c :: nat) + 32)
      else c)"

definition lower :: "string \<Rightarrow> string" where
  "lower s = map lower_char s"

text \<open>\<open>s.split(sep)\<close> for a one-character separator: never the empty list.\<close>

fun py_split :: "char \<Rightarrow> string \<Rightarrow> string list" where
  "py_split sep [] = [[]]"
| "py_split sep (c # cs) =
     (if c = sep then [] # py_split sep cs
      else (case py_split sep cs of
              [] \<Rightarrow> [[c]]
            | w # ws \<Rightarrow> (c # w) # ws))"

text \<open>\<open>p in s\<close> for strings: \<open>p\<close> occurs in \<open>s\<close> as a contiguous block.\<close>

fun py_in :: "string \<Rightarrow> string \<Rightarrow> bool" where
  "py_in p [] = (p = [])"
| "py_in p (c # cs) = (prefix p (c # cs) \<or> py_in p cs)"

text \<open>
  A column label is a \<open>str\<close> or, in a workbook whose header cell holds a number, a
  number. A data frame is the list of its columns, left to right.
\<close>

datatype label = LStr string | LNum int

type_synonym dataframe = "(label \<times> cell list) list"

text \<open>
  The uploaded file: its name, and what \<open>pd.read_csv\<close> and \<open>pd.read_excel\<close> return
  or raise on its content.
\<close>

record uploaded_file =
  name :: string
  read_csv :: "py_exn + dataframe"
  read_excel :: "py_exn + dataframe"

text \<open>
  The messages shown to the user: \<open>st.error\<close> of line 82, of line 100 and of line 133,
  and \<open>st.warning\<close> of line 93.
\<close>

datatype notice =
    ErrUnsupportedFormat
  | ErrReadingFile py_exn
  | WarnNoUrlColumn label
  | ErrNoApiKey

definition file_extension :: "string \<Rightarrow> string" where
  "file_extension file_name = lower (last (py_split CHR ''.'' file_name))"

text \<open>
  Line 86, \<open>[col for col in df.columns if 'url' in col.lower()]\<close>: a label that is not a
  \<open>str\<close> has no \<open>lower\<close>.
\<close>

fun url_columns :: "label list \<Rightarrow> py_exn + label list" where
  "url_columns [] = Inr []"
| "url_columns (LNum k # cols) = Inl AttributeError"
| "url_columns (LStr s # cols) =
     (case url_columns cols of
        Inl e \<Rightarrow> Inl e
      | Inr found \<Rightarrow> Inr (if py_in ''url'' (lower s) then LStr s # found else found))"

definition dropna :: "cell list \<Rightarrow> cell list" where
  "dropna cells = filter (\<lambda>c. c \<noteq> NaN) cells"

text \<open>
  Line 96, \<open>df[url_column].dropna().tolist()\<close>. A label carried by one column selects
  that column; a label carried by several selects a data frame, which has no \<open>tolist\<close>.
\<close>

definition column_tolist :: "dataframe \<Rightarrow> label \<Rightarrow> py_exn + cell list" where
  "column_tolist df c =
     (case filter (\<lambda>col. fst col = c) df of
        [col] \<Rightarrow> Inr (dropna (snd col))
      | _ \<Rightarrow> Inl AttributeError)"

text \<open>Lines 86-97: the warnings given, and the list of URLs or the exception raised.\<close>

definition extract_urls :: "dataframe \<Rightarrow> notice list \<times> (py_exn + cell list)" where
  "extract_urls df =
     (case url_columns (map fst df) of
        Inl e \<Rightarrow> ([], Inl e)
      | Inr [] \<Rightarrow>
          (case map fst df of
             [] \<Rightarrow> ([], Inl IndexError)
           | c # cs \<Rightarrow> ([WarnNoUrlColumn c], column_tolist df c))
      | Inr (c # found) \<Rightarrow> ([], column_tolist df c))"

text \<open>The \<open>except Exception\<close> of lines 99-101 turns every exception into \<open>None\<close>.\<close>

definition after_read :: "py_exn + dataframe \<Rightarrow> notice list \<times> cell list option" where
  "after_read parsed =
     (case parsed of
        Inl e \<Rightarrow> ([ErrReadingFile e], None)
      | Inr df \<Rightarrow>
          (case extract_urls df of
             (ns, Inl e) \<Rightarrow> (ns @ [ErrReadingFile e], None)
           | (ns, Inr urls) \<Rightarrow> (ns, Some urls)))"

definition read_urls_from_file :: "uploaded_file \<Rightarrow> notice list \<times> cell list option" where
  "read_urls_from_file f =
     (if file_extension (name f) = ''csv'' then after_read (read_csv f)
      else if file_extension (name f) \<in> set [''xlsx'', ''xls''] then after_read (read_excel f)
      else ([ErrUnsupportedFormat], None))"

section \<open>The downloads offered after a run (app.py, lines 180-279)\<close>

text \<open>
  A download button that has been created stays on the page when a later statement
  raises, so every stage returns the downloads it created and the exception that
  stopped it, if any. Time stamps (file names, the \<open>timestamp\<close> entry) are left out.
\<close>

record summary_row =
  row_url :: string
  row_title :: json
  row_description :: json
  row_content_length :: nat
  row_markdown_length :: nat

record run_summary =
  total_urls :: nat
  successful :: nat
  failed :: nat

datatype download =
    SummaryCsv "summary_row list"
  | ResultJson nat json
  | ErrorsCsv "scrape_error list"
  | AllResultsJson run_summary "json list" "scrape_error list"

text \<open>
  \<open>v[:50] + '...' if len(v) > 50 else v\<close> (lines 188-189). The concatenation is defined
  on a \<open>str\<close> only; a list or dict of more than 50 entries raises (slicing a dict is a
  \<open>TypeError\<close> up to Python 3.11).
\<close>

fun truncate50 :: "json \<Rightarrow> py_exn + json" where
  "truncate50 (JStr s) = Inr (JStr (if length s > 50 then take 50 s @ ''...'' else s))"
| "truncate50 v =
     (case py_len v of
        Inl e \<Rightarrow> Inl e
      | Inr n \<Rightarrow> if n > 50 then Inl TypeError else Inr v)"

fun summary_rows :: "scrape_result list \<Rightarrow> py_exn + summary_row list" where
  "summary_rows [] = Inr []"
| "summary_rows (r # rs) =
     (case truncate50 (title r) of
        Inl e \<Rightarrow> Inl e
      | Inr t \<Rightarrow>
     (case truncate50 (description r) of
        Inl e \<Rightarrow> Inl e
      | Inr d \<Rightarrow>
     (case summary_rows rs of
        Inl e \<Rightarrow> Inl e
      | Inr rows \<Rightarrow>
          Inr (\<lparr>row_url = url r, row_title = t, row_description = d,
                row_content_length = content_length r,
                row_markdown_length = markdown_length r\<rparr> # rows))))"

text \<open>Lines 183-205.\<close>

definition summary_tab :: "scrape_result list \<Rightarrow> download list \<times> py_exn option" where
  "summary_tab rs =
     (if rs \<noteq> [] then
        (case summary_rows rs of
           Inl e \<Rightarrow> ([], Some e)
         | Inr rows \<Rightarrow> ([SummaryCsv rows], None))
      else ([], None))"

text \<open>
  The preview of lines 216-232, \<open>d[k][:1000] + "..."\<close> when \<open>d.get(k)\<close> is true: it
  shows text and creates no download, but raises when the value is not a \<open>str\<close>.
\<close>

definition preview :: "json \<Rightarrow> string \<Rightarrow> py_exn option" where
  "preview full k =
     (case py_get full k JNull of
        Inl e \<Rightarrow> Some e
      | Inr v \<Rightarrow>
          if truthy v then (case v of JStr s \<Rightarrow> None | _ \<Rightarrow> Some TypeError)
          else None)"

text \<open>Lines 209-242, one expander for each result; \<open>i\<close> is the index of the head.\<close>

fun detail_tab :: "bool \<Rightarrow> nat \<Rightarrow> scrape_result list \<Rightarrow> download list \<times> py_exn option" where
  "detail_tab md i [] = ([], None)"
| "detail_tab md i (r # rs) =
     (case preview (full_result r) ''text'' of
        Some e \<Rightarrow> ([], Some e)
      | None \<Rightarrow>
     (case (if md then preview (full_result r) ''markdown'' else None) of
        Some e \<Rightarrow> ([], Some e)
      | None \<Rightarrow>
     (case detail_tab md (i + 1) rs of
        (ds, x) \<Rightarrow> (ResultJson (i + 1) (full_result r) # ds, x))))"

text \<open>Lines 245-256.\<close>

definition errors_tab :: "scrape_error list \<Rightarrow> download list \<times> py_exn option" where
  "errors_tab es = (if es \<noteq> [] then ([ErrorsCsv es], None) else ([], None))"

text \<open>Lines 261-279.\<close>

definition all_results :: "nat \<Rightarrow> run_state \<Rightarrow> download list \<times> py_exn option" where
  "all_results n st =
     (if results st \<noteq> [] then
        ([AllResultsJson
            \<lparr>total_urls = n, successful = length (results st), failed = length (errors st)\<rparr>
            (map full_result (results st)) (errors st)], None)
      else ([], None))"

text \<open>One stage after the other, stopping at the first exception.\<close>

definition and_then ::
  "download list \<times> py_exn option \<Rightarrow> download list \<times> py_exn option \<Rightarrow> download list \<times> py_exn option" where
  "and_then a b =
     (case a of
        (ds, Some e) \<Rightarrow> (ds, Some e)
      | (ds, None) \<Rightarrow> (case b of (ds', x) \<Rightarrow> (ds @ ds', x)))"

definition present :: "config \<Rightarrow> nat \<Rightarrow> run_state \<Rightarrow> download list \<times> py_exn option" where
  "present cfg n st =
     and_then (summary_tab (results st))
       (and_then (detail_tab (include_markdown cfg) 0 (results st))
          (and_then (errors_tab (errors st)) (all_results n st)))"

section \<open>The page (app.py, lines 114-279)\<close>

text \<open>
  One execution of the script: the uploaded file if any, and whether \<open>st.button\<close>
  returned true. The outcome is the messages shown and, when the loop was started, what
  it returned or raised, with the downloads offered after it.
\<close>

datatype scraping =
    NotStarted
  | Aborted py_exn run_state
  | Finished run_state "download list" "py_exn option"

definition app ::
  "(nat \<Rightarrow> request \<Rightarrow> http_reply) \<Rightarrow> config \<Rightarrow> uploaded_file option \<Rightarrow> bool
     \<Rightarrow> notice list \<times> scraping" where
  "app net cfg uploaded clicked =
     (case uploaded of
        None \<Rightarrow> ([], NotStarted)
      | Some f \<Rightarrow>
          (case read_urls_from_file f of
             (ns, None) \<Rightarrow> (ns, NotStarted)
           | (ns, Some urls) \<Rightarrow>
               if urls \<noteq> [] then
                 (if clicked then
                    (if api_key cfg = [] then (ns @ [ErrNoApiKey], NotStarted)
                     else
                       (case run net cfg urls of
                          Inl (e, st) \<Rightarrow> (ns, Aborted e st)
                        | Inr st \<Rightarrow>
                            (case present cfg (length urls) st of
                               (ds, x) \<Rightarrow> (ns, Finished st ds x))))
                  else (ns, NotStarted))
               else (ns, NotStarted)))"

text \<open>The HTTP calls made by one execution of the script.\<close>

definition http_calls :: "scraping \<Rightarrow> request list" where
  "http_calls s =
     (case s of
        NotStarted \<Rightarrow> []
      | Aborted e st \<Rightarrow> posts (trace st)
      | Finished st ds x \<Rightarrow> posts (trace st))"

section \<open>Notions used in the statements\<close>

text \<open>
  Whether the URL at index \<open>i\<close> ends in the error sequence: the client returned a
  message and the message is not empty.
\<close>

definition url_failed :: "(nat \<Rightarrow> request \<Rightarrow> http_reply) \<Rightarrow> config \<Rightarrow> nat \<times> cell \<Rightarrow> bool" where
  "url_failed net cfg ic =
     (case ic of
        (i, CStr u) \<Rightarrow>
          (case snd (scrape_url (net i) u (api_key cfg) (include_markdown cfg)) of
             None \<Rightarrow> False
           | Some msg \<Rightarrow> msg \<noteq> [])
      | _ \<Rightarrow> False)"

text \<open>
  The effects of the URL at index \<open>i\<close> of a list of \<open>n\<close>: the progress update, the
  call, and a sleep unless the URL is the last one.
\<close>

definition url_events :: "config \<Rightarrow> nat \<Rightarrow> nat \<times> cell \<Rightarrow> event list" where
  "url_events cfg n ic =
     (case ic of
        (i, CStr u) \<Rightarrow>
          [Progress (i + 1) n (take 50 u),
           HttpPost (make_request u (api_key cfg) (include_markdown cfg))] @
          (if i + 1 < n then [Sleep (rate_limit cfg)] else [])
      | _ \<Rightarrow> [])"

text \<open>
  The scenario of three URLs of which the first two succeed and the third meets a server
  error, with a delay of one second.
\<close>

definition ok_response :: "json \<Rightarrow> http_reply" where
  "ok_response j =
     Response \<lparr>status_code = 200, reason = ''OK'', resp_url = ''https://scrape.serper.dev/'',
               resp_body = JsonBody j\<rparr>"

definition scenario_net :: "nat \<Rightarrow> request \<Rightarrow> http_reply" where
  "scenario_net i req =
     (if i < 2 then ok_response (JObj [(''title'', JStr ''Example''), (''text'', JStr ''hello'')])
      else Response \<lparr>status_code = 500, reason = ''Internal Server Error'',
                     resp_url = ''https://scrape.serper.dev/'', resp_body = BadBody ''Expecting value''\<rparr>)"

definition scenario_cfg :: config where
  "scenario_cfg = \<lparr>api_key = ''secret'', include_markdown = True, rate_limit = 1\<rparr>"

definition scenario_urls :: "cell list" where
  "scenario_urls = [CStr ''https://a.com'', CStr ''https://b.com'', CStr ''https://c.com'']"

definition scenario_dur :: "nat \<Rightarrow> event \<Rightarrow> rat" where
  "scenario_dur k ev = (case ev of Sleep d \<Rightarrow> max 0 d | HttpPost r \<Rightarrow> 2 | Progress a b c \<Rightarrow> 0)"

text \<open>
  The failures of the HTTP interaction: \<open>requests.request\<close> raised, the status is from 400
  to 599, or the body did not parse.
\<close>

definition interaction_fails :: "http_reply \<Rightarrow> bool" where
  "interaction_fails rep =
     (case rep of
        ConnFailed msg \<Rightarrow> True
      | Response r \<Rightarrow>
          (400 \<le> status_code r \<and> status_code r < 600) \<or>
          (case resp_body r of BadBody msg \<Rightarrow> True | JsonBody j \<Rightarrow> False))"

text \<open>
  The exception raised by the library for a transport or a parse failure has a message
  that is not empty. (The message for a status from 400 to 599 is built by
  \<open>raise_for_status\<close> and never empty.)
\<close>

definition message_given :: "http_reply \<Rightarrow> bool" where
  "message_given rep =
     (case rep of
        ConnFailed msg \<Rightarrow> msg \<noteq> []
      | Response r \<Rightarrow>
          (400 \<le> status_code r \<and> status_code r < 600) \<or>
          (case resp_body r of BadBody msg \<Rightarrow> msg \<noteq> [] | JsonBody j \<Rightarrow> True))"

text \<open>
  A status outside 200 to 299, and a response with such a status whose body parses.
\<close>

definition non_2xx :: "response \<Rightarrow> bool" where
  "non_2xx r = (\<not> (200 \<le> status_code r \<and> status_code r < 300))"

definition multiple_choices :: response where
  "multiple_choices =
     \<lparr>status_code = 300, reason = ''Multiple Choices'', resp_url = ''https://scrape.serper.dev/'',
      resp_body = JsonBody (JObj [(''title'', JStr ''Example'')])\<rparr>"

text \<open>
  The payload \<open>{"title": "Example", "text": "hello"}\<close>.
\<close>

definition scenario_payload :: "(string \<times> json) list" where
  "scenario_payload = [(''title'', JStr ''Example''), (''text'', JStr ''hello'')]"

text \<open>
  A column label that is a \<open>str\<close>.
\<close>

definition is_str :: "label \<Rightarrow> bool" where
  "is_str l = (case l of LStr s \<Rightarrow> True | LNum k \<Rightarrow> False)"

text \<open>
  A column name that contains \<open>url\<close>, whatever the case of its letters.
\<close>

definition names_url :: "label \<Rightarrow> bool" where
  "names_url l = (case l of LStr s \<Rightarrow> sublist ''url'' (lower s) | LNum k \<Rightarrow> False)"

text \<open>
  The column selection policy: the leftmost column whose name contains \<open>url\<close>, and
  the leftmost column of the table when there is none.
\<close>

definition selected_column :: "dataframe \<Rightarrow> (label \<times> cell list) option" where
  "selected_column df =
     (case find (\<lambda>col. names_url (fst col)) df of
        Some col \<Rightarrow> Some col
      | None \<Rightarrow> (case df of [] \<Rightarrow> None | col # cols \<Rightarrow> Some col))"

text \<open>
  No cell holds the empty text. \<open>pd.read_csv\<close> and \<open>pd.read_excel\<close> read an empty field
  as \<open>NaN\<close>, so the tables they return are of this kind.
\<close>

definition no_empty_text :: "dataframe \<Rightarrow> bool" where
  "no_empty_text df = list_all (\<lambda>col. CStr [] \<notin> set (snd col)) df"

text \<open>
  Two tables: one whose second column is named \<open>Page URL\<close>, one with no such column.
\<close>

definition sample_table :: dataframe where
  "sample_table =
     [(LStr ''Website'', [CStr ''a'', CStr ''b'', CStr ''c'']),
      (LStr ''Page URL'', [CStr ''https://a.com'', NaN, CStr ''https://b.com''])]"

definition plain_table :: dataframe where
  "plain_table = [(LStr ''Website'', [CStr ''https://a.com'', NaN]), (LStr ''Owner'', [CStr ''x'', CStr ''y''])]"

text \<open>
  A network on which every call fails.
\<close>

definition failing_net :: "nat \<Rightarrow> request \<Rightarrow> http_reply" where
  "failing_net i req = ConnFailed ''Connection aborted.''"

text \<open>
  An uploaded file named \<open>my.urls.TXT\<close>.
\<close>

definition notes_file :: uploaded_file where
  "notes_file =
     \<lparr>name = ''my.urls.TXT'',
      read_csv = Inr [(LStr ''URL'', [CStr ''https://a.com''])],
      read_excel = Inl (PandasError ''Excel file format cannot be determined'')\<rparr>"

text \<open>
  A run goes through the whole list when every URL is text, the delay is not negative,
  and every reply is one that the loop can record: a failure with a message, or an object
  whose \<open>text\<close> and \<open>markdown\<close> are false in a condition or have a length.
\<close>

definition has_len_or_falsy :: "json \<Rightarrow> bool" where
  "has_len_or_falsy v = (case py_len (py_or v (JStr [])) of Inl e \<Rightarrow> False | Inr n \<Rightarrow> True)"

definition payload_ok :: "json \<Rightarrow> bool" where
  "payload_ok j =
     (case j of
        JObj d \<Rightarrow>
          has_len_or_falsy (dict_get d ''text'' JNull) \<and>
          has_len_or_falsy (dict_get d ''markdown'' JNull)
      | _ \<Rightarrow> False)"

definition reply_ok :: "http_reply \<Rightarrow> bool" where
  "reply_ok rep =
     (message_given rep \<and>
      (case rep of
         ConnFailed msg \<Rightarrow> True
       | Response r \<Rightarrow>
           (400 \<le> status_code r \<and> status_code r < 600) \<or>
           (case resp_body r of BadBody msg \<Rightarrow> True | JsonBody j \<Rightarrow> payload_ok j)))"

definition well_behaved :: "(nat \<Rightarrow> request \<Rightarrow> http_reply) \<Rightarrow> config \<Rightarrow> nat \<Rightarrow> cell list \<Rightarrow> bool" where
  "well_behaved net cfg i urls =
     (0 \<le> rate_limit cfg \<and>
      list_all
        (\<lambda>kc. case kc of
           (k, CStr u) \<Rightarrow> reply_ok (net k (make_request u (api_key cfg) (include_markdown cfg)))
         | _ \<Rightarrow> False)
        (enumerate i urls))"

text \<open>
  The number of outcomes recorded in a state, and the state in which a run ends,
  whether it went through the whole list or an exception left the loop.
\<close>

definition outcomes :: "run_state \<Rightarrow> nat" where
  "outcomes st = length (results st) + length (errors st)"

definition final_state :: "py_exn \<times> run_state + run_state \<Rightarrow> run_state" where
  "final_state res = (case res of Inl (e, st) \<Rightarrow> st | Inr st \<Rightarrow> st)"

text \<open>
  A network whose second reply is \<open>{"text": 5}\<close> and whose other replies are \<open>{}\<close>, all
  with status 200, and the state in which the scenario's three URLs end on it:
  \<open>len(5)\<close> raises at line 163 while the second URL is recorded.
\<close>

definition abort_net :: "nat \<Rightarrow> request \<Rightarrow> http_reply" where
  "abort_net i req =
     (if i = 1 then ok_response (JObj [(''text'', JNum 5)]) else ok_response (JObj []))"

definition aborted_state :: run_state where
  "aborted_state =
     \<lparr>results =
        [\<lparr>url = ''https://a.com'', title = JStr ''N/A'', description = JStr ''N/A'',
          content_length = 0, markdown_length = 0, full_result = JObj []\<rparr>],
      errors = [],
      trace =
        [Progress 1 3 ''https://a.com'',
         HttpPost (make_request ''https://a.com'' ''secret'' True),
         Sleep 1,
         Progress 2 3 ''https://b.com'',
         HttpPost (make_request ''https://b.com'' ''secret'' True)]\<rparr>"

section \<open>The scrape loop: counts, order and delays\<close>

lemma posts_append: "posts (xs @ ys) = posts xs @ posts ys"
  by (induction xs rule: posts.induct) simp_all

lemma sleeps_append: "sleeps (xs @ ys) = sleeps xs @ sleeps ys"
  by (induction xs rule: sleeps.induct) simp_all

lemma record_outcome_cases:
  assumes "record_outcome u out st = Inr st'"
  shows "trace st' = trace st \<and>
    ((\<exists>msg. snd out = Some msg \<and> msg \<noteq> [] \<and> results st' = results st \<and>
        errors st' = errors st @ [\<lparr>err_url = u, error = msg\<rparr>]) \<or>
     ((snd out = None \<or> snd out = Some []) \<and> errors st' = errors st \<and>
        (\<exists>r. make_result u (fst out) = Inr r \<and> results st' = results st @ [r])))"
  using assms
  by (cases out) (auto simp: record_outcome_def split: option.splits if_splits sum.splits)

lemma make_result_url: "make_result u j = Inr r \<Longrightarrow> url r = u"
  by (auto simp: make_result_def split: sum.splits)

lemma loop_Cons_Inr:
  assumes "scrape_loop net cfg n i (c # rest) st = Inr st'"
  obtains u st1 where "c = CStr u"
    and "record_outcome u (scrape_url (net i) u (api_key cfg) (include_markdown cfg))
           (announce cfg n i u st) = Inr st1"
    and "scrape_loop net cfg n (i + 1) rest
           (if int i < int n - 1 then st1\<lparr>trace := trace st1 @ [Sleep (rate_limit cfg)]\<rparr> else st1) = Inr st'"
    and "int i < int n - 1 \<longrightarrow> 0 \<le> rate_limit cfg"
  using assms by (cases c) (auto split: sum.splits if_splits)

lemma loop_counts:
  "scrape_loop net cfg n i us st = Inr st' \<Longrightarrow>
     length (results st') + length (errors st') = length (results st) + length (errors st) + length us"
proof (induction us arbitrary: i st)
  case Nil
  then show ?case by simp
next
  case (Cons c rest)
  from Cons.prems obtain u st1 where
    r: "record_outcome u (scrape_url (net i) u (api_key cfg) (include_markdown cfg)) (announce cfg n i u st) = Inr st1"
    and l: "scrape_loop net cfg n (i + 1) rest
           (if int i < int n - 1 then st1\<lparr>trace := trace st1 @ [Sleep (rate_limit cfg)]\<rparr> else st1) = Inr st'"
    by (rule loop_Cons_Inr)
  from record_outcome_cases[OF r] have
    "length (results st1) + length (errors st1) = length (results st) + length (errors st) + 1"
    by (auto simp: announce_def)
  with Cons.IH[OF l] show ?case by (simp split: if_splits)
qed

lemma loop_trace_posts:
  "scrape_loop net cfg n i us st = Inr st' \<Longrightarrow>
     map (\<lambda>r. CStr (data_url r)) (posts (trace st')) = map (\<lambda>r. CStr (data_url r)) (posts (trace st)) @ us"
proof (induction us arbitrary: i st)
  case Nil
  then show ?case by simp
next
  case (Cons c rest)
  from Cons.prems obtain u st1 where c: "c = CStr u" and
    r: "record_outcome u (scrape_url (net i) u (api_key cfg) (include_markdown cfg)) (announce cfg n i u st) = Inr st1"
    and l: "scrape_loop net cfg n (i + 1) rest
           (if int i < int n - 1 then st1\<lparr>trace := trace st1 @ [Sleep (rate_limit cfg)]\<rparr> else st1) = Inr st'"
    by (rule loop_Cons_Inr)
  from record_outcome_cases[OF r] have
    "posts (trace st1) = posts (trace st) @ [make_request u (api_key cfg) (include_markdown cfg)]"
    by (simp add: announce_def posts_append)
  with Cons.IH[OF l] c show ?case
    by (simp add: posts_append make_request_def split: if_splits)
qed

lemma loop_results:
  "scrape_loop net cfg n i us st = Inr st' \<Longrightarrow>
     map (\<lambda>r. CStr (url r)) (results st') =
       map (\<lambda>r. CStr (url r)) (results st) @ map snd (filter (\<lambda>ic. \<not> url_failed net cfg ic) (enumerate i us)) \<and>
     map (\<lambda>e. CStr (err_url e)) (errors st') =
       map (\<lambda>e. CStr (err_url e)) (errors st) @ map snd (filter (url_failed net cfg) (enumerate i us))"
proof (induction us arbitrary: i st)
  case Nil
  then show ?case by simp
next
  case (Cons c rest)
  from Cons.prems obtain u st1 where c: "c = CStr u" and
    r: "record_outcome u (scrape_url (net i) u (api_key cfg) (include_markdown cfg)) (announce cfg n i u st) = Inr st1"
    and l: "scrape_loop net cfg n (i + 1) rest
           (if int i < int n - 1 then st1\<lparr>trace := trace st1 @ [Sleep (rate_limit cfg)]\<rparr> else st1) = Inr st'"
    by (rule loop_Cons_Inr)
  from record_outcome_cases[OF r] have
    "(url_failed net cfg (i, c) \<and> map (\<lambda>r. CStr (url r)) (results st1) = map (\<lambda>r. CStr (url r)) (results st) \<and>
        map (\<lambda>e. CStr (err_url e)) (errors st1) = map (\<lambda>e. CStr (err_url e)) (errors st) @ [c]) \<or>
     (\<not> url_failed net cfg (i, c) \<and> map (\<lambda>r. CStr (url r)) (results st1) = map (\<lambda>r. CStr (url r)) (results st) @ [c] \<and>
        map (\<lambda>e. CStr (err_url e)) (errors st1) = map (\<lambda>e. CStr (err_url e)) (errors st))"
    using c by (auto simp: announce_def url_failed_def make_result_url)
  with Cons.IH[OF l] show ?case
    by (auto split: if_splits)
qed

lemma loop_sleeps:
  "scrape_loop net cfg n i us st = Inr st' \<Longrightarrow> i + length us = n \<Longrightarrow>
     sleeps (trace st') = sleeps (trace st) @ replicate (length us - 1) (rate_limit cfg) \<and>
     (2 \<le> length us \<longrightarrow> 0 \<le> rate_limit cfg)"
proof (induction us arbitrary: i st)
  case Nil
  then show ?case by simp
next
  case (Cons c rest)
  from Cons.prems(1) obtain u st1 where c: "c = CStr u" and
    r: "record_outcome u (scrape_url (net i) u (api_key cfg) (include_markdown cfg)) (announce cfg n i u st) = Inr st1"
    and l: "scrape_loop net cfg n (i + 1) rest
           (if int i < int n - 1 then st1\<lparr>trace := trace st1 @ [Sleep (rate_limit cfg)]\<rparr> else st1) = Inr st'"
    and nn: "int i < int n - 1 \<longrightarrow> 0 \<le> rate_limit cfg"
    by (rule loop_Cons_Inr)
  from record_outcome_cases[OF r] have t: "sleeps (trace st1) = sleeps (trace st)"
    by (simp add: announce_def sleeps_append)
  from Cons.prems(2) have n: "i + 1 + length rest = n" by simp
  show ?case
  proof (cases rest)
    case Nil
    with n have "\<not> int i < int n - 1" by simp
    with l Nil t show ?thesis by simp
  next
    case (Cons c' rest')
    with n have lt: "int i < int n - 1" by simp
    with l Cons.IH[OF _ n] t nn show ?thesis
      using Cons by (simp add: sleeps_append replicate_app_Cons_same)
  qed
qed

lemma elapsed_from_sleeps:
  assumes "\<And>k ev. 0 \<le> dur k ev" and "\<And>k d. d \<le> dur k (Sleep d)"
  shows "sum_list (sleeps evs) \<le> elapsed_from dur k evs"
proof (induction evs arbitrary: k)
  case Nil
  then show ?case by simp
next
  case (Cons ev evs)
  show ?case
  proof (cases ev)
    case (Sleep d)
    with Cons[of "k + 1"] assms(2)[of d k] show ?thesis by simp
  next
    case (Progress a b c)
    with Cons[of "k + 1"] assms(1)[of k ev] show ?thesis by simp
  next
    case (HttpPost r)
    with Cons[of "k + 1"] assms(1)[of k ev] show ?thesis by simp
  qed
qed


lemma loop_trace:
  "scrape_loop net cfg n i us st = Inr st' \<Longrightarrow>
     trace st' = trace st @ concat (map (url_events cfg n) (enumerate i us))"
proof (induction us arbitrary: i st)
  case Nil
  then show ?case by simp
next
  case (Cons c rest)
  from Cons.prems obtain u st1 where c: "c = CStr u" and
    r: "record_outcome u (scrape_url (net i) u (api_key cfg) (include_markdown cfg)) (announce cfg n i u st) = Inr st1"
    and l: "scrape_loop net cfg n (i + 1) rest
           (if int i < int n - 1 then st1\<lparr>trace := trace st1 @ [Sleep (rate_limit cfg)]\<rparr> else st1) = Inr st'"
    by (rule loop_Cons_Inr)
  from record_outcome_cases[OF r] have
    t: "trace st1 = trace st @ [Progress (i + 1) n (take 50 u),
           HttpPost (make_request u (api_key cfg) (include_markdown cfg))]"
    by (simp add: announce_def)
  have eq: "(int i < int n - 1) = (i + 1 < n)" by auto
  from Cons.IH[OF l] t c show ?case
    by (simp add: url_events_def eq split: if_splits)
qed

section \<open>The scrape client and the result record\<close>

lemma str_nat_nonempty: "str_nat n \<noteq> []"
  by (subst str_nat.simps) simp

lemma raise_for_status_Some:
  "400 \<le> status_code r \<Longrightarrow> status_code r < 600 \<Longrightarrow> \<exists>msg. raise_for_status r = Some msg \<and> msg \<noteq> []"
  by (auto simp: raise_for_status_def)

lemma raise_for_status_None:
  "\<not> (400 \<le> status_code r \<and> status_code r < 600) \<Longrightarrow> raise_for_status r = None"
  by (auto simp: raise_for_status_def)

lemma scrape_url_failure:
  assumes "interaction_fails (send (make_request u key md))"
      and "message_given (send (make_request u key md))"
  shows "\<exists>msg. msg \<noteq> [] \<and> scrape_url send u key md = (JNull, Some msg)"
proof (cases "send (make_request u key md)")
  case (ConnFailed msg)
  with assms show ?thesis
    by (simp add: scrape_url_def message_given_def)
next
  case (Response r)
  show ?thesis
  proof (cases "400 \<le> status_code r \<and> status_code r < 600")
    case True
    then obtain msg where "raise_for_status r = Some msg" "msg \<noteq> []"
      using raise_for_status_Some by blast
    with Response show ?thesis by (simp add: scrape_url_def)
  next
    case False
    with assms Response obtain msg where "resp_body r = BadBody msg" "msg \<noteq> []"
      by (auto simp: interaction_fails_def message_given_def split: body.splits)
    with Response raise_for_status_None[OF False] show ?thesis
      by (simp add: scrape_url_def)
  qed
qed

text \<open>
  Claim C2, amended. When \<open>requests.request\<close> raises, when the status is from 400 to 599
  or when the body does not parse, \<open>scrape_url\<close> returns \<open>(None, str(e))\<close>; the message is
  not empty when the library gave one, and then the loop appends the URL and the message
  to the errors, leaves the results as they are and goes on with the next URL.
\<close>

theorem http_failure_is_recorded:
  assumes "interaction_fails (net i (make_request u (api_key cfg) (include_markdown cfg)))"
      and "message_given (net i (make_request u (api_key cfg) (include_markdown cfg)))"
      and "0 \<le> rate_limit cfg"
  shows "\<exists>msg. msg \<noteq> [] \<and>
           scrape_url (net i) u (api_key cfg) (include_markdown cfg) = (JNull, Some msg) \<and>
           scrape_loop net cfg n i (CStr u # rest) st =
             scrape_loop net cfg n (i + 1) rest
               \<lparr>results = results st,
                errors = errors st @ [\<lparr>err_url = u, error = msg\<rparr>],
                trace = trace st @
                  [Progress (i + 1) n (take 50 u),
                   HttpPost (make_request u (api_key cfg) (include_markdown cfg))] @
                  (if int i < int n - 1 then [Sleep (rate_limit cfg)] else [])\<rparr>"
proof -
  from scrape_url_failure[of "net i" u "api_key cfg" "include_markdown cfg", OF assms(1,2)]
  obtain msg where
    m: "msg \<noteq> []" "scrape_url (net i) u (api_key cfg) (include_markdown cfg) = (JNull, Some msg)"
    by blast
  with assms(3) show ?thesis
    by (cases st) (simp add: record_outcome_def announce_def)
qed

theorem http_failure_is_recorded_witness:
  "interaction_fails (scenario_net 2 (make_request ''https://c.com'' (api_key scenario_cfg) (include_markdown scenario_cfg))) \<and>
   message_given (scenario_net 2 (make_request ''https://c.com'' (api_key scenario_cfg) (include_markdown scenario_cfg))) \<and>
   0 \<le> rate_limit scenario_cfg \<and>
   (\<exists>msg. msg \<noteq> [] \<and>
      scrape_url (scenario_net 2) ''https://c.com'' (api_key scenario_cfg) (include_markdown scenario_cfg) = (JNull, Some msg) \<and>
      scrape_loop scenario_net scenario_cfg 4 2 [CStr ''https://c.com'', CStr ''https://d.com''] init_state =
        scrape_loop scenario_net scenario_cfg 4 3 [CStr ''https://d.com'']
          \<lparr>results = [],
           errors = [\<lparr>err_url = ''https://c.com'', error = msg\<rparr>],
           trace = [Progress 3 4 ''https://c.com'',
                    HttpPost (make_request ''https://c.com'' (api_key scenario_cfg) (include_markdown scenario_cfg)),
                    Sleep 1]\<rparr>)"
proof -
  have a: "interaction_fails (scenario_net 2 (make_request ''https://c.com'' (api_key scenario_cfg) (include_markdown scenario_cfg)))"
    by (simp add: interaction_fails_def scenario_net_def)
  have b: "message_given (scenario_net 2 (make_request ''https://c.com'' (api_key scenario_cfg) (include_markdown scenario_cfg)))"
    by (simp add: message_given_def scenario_net_def)
  have c: "0 \<le> rate_limit scenario_cfg"
    by (simp add: scenario_cfg_def)
  from http_failure_is_recorded[where net = scenario_net and i = 2 and u = "''https://c.com''"
      and cfg = scenario_cfg and n = 4 and rest = "[CStr ''https://d.com'']" and st = init_state,
      OF a b c] a b c
  show ?thesis
    by (simp add: init_state_def scenario_cfg_def)
qed

text \<open>
  Claim C2 as stated fails on a status outside 200 to 299 that is not from 400 to 599:
  \<open>raise_for_status\<close> does not raise for status 300, and a body that parses is returned
  as a success with no error.
\<close>

theorem non_2xx_status_counterexample:
  "non_2xx multiple_choices \<and>
   scrape_url (\<lambda>req. Response multiple_choices) ''https://a.com'' ''secret'' True =
     (JObj [(''title'', JStr ''Example'')], None)"
  by (simp add: non_2xx_def multiple_choices_def scrape_url_def raise_for_status_def)

lemma field_length_or:
  "field_length (JObj d) k = py_len (py_or (dict_get d k JNull) (JStr []))"
  by (auto simp: field_length_def py_or_def dict_get_def split: option.splits)

text \<open>
  Claim C9. When the payload maps \<open>text\<close> (or \<open>markdown\<close>) to a value that is false in a
  condition, the length computed for that field is \<open>0\<close> and nothing is raised, and the
  record built from the payload holds \<open>0\<close> as \<open>content_length\<close> (or \<open>markdown_length\<close>).
\<close>

theorem falsy_field_length_zero:
  assumes "k = ''text'' \<or> k = ''markdown''" and "map_of d k = Some v" and "\<not> truthy v"
  shows "field_length (JObj d) k = Inr 0 \<and>
         (make_result u (JObj d) = Inr r \<longrightarrow>
            (if k = ''text'' then content_length r else markdown_length r) = 0)"
proof -
  from assms(2,3) have f: "field_length (JObj d) k = Inr 0"
    by (simp add: field_length_def dict_get_def)
  with assms(1) show ?thesis
    by (auto simp: make_result_def split: sum.splits)
qed

theorem falsy_field_length_zero_witness:
  "(''text'' = ''text'' \<or> ''text'' = ''markdown'') \<and>
   map_of [(''title'', JStr ''Example''), (''text'', JNull)] ''text'' = Some JNull \<and> \<not> truthy JNull \<and>
   field_length (JObj [(''title'', JStr ''Example''), (''text'', JNull)]) ''text'' = Inr 0 \<and>
   (\<exists>r. make_result ''https://a.com'' (JObj [(''title'', JStr ''Example''), (''text'', JNull)]) = Inr r \<and>
        content_length r = 0)"
proof -
  have a: "map_of [(''title'', JStr ''Example''), (''text'', JNull)] ''text'' = Some JNull"
    by simp
  have b: "\<not> truthy JNull" by simp
  have "case make_result ''https://a.com'' (JObj [(''title'', JStr ''Example''), (''text'', JNull)]) of
          Inl e \<Rightarrow> False | Inr r \<Rightarrow> True"
    by code_simp
  then obtain r where r: "make_result ''https://a.com'' (JObj [(''title'', JStr ''Example''), (''text'', JNull)]) = Inr r"
    by (auto split: sum.splits)
  from falsy_field_length_zero[OF _ a b, of "''https://a.com''" r] r a b
  show ?thesis by simp
qed

text \<open>
  Claim C6, amended. The record appended for a successful scrape has the payload's
  \<open>title\<close> when the key is present, whatever its value, and \<open>N/A\<close> when the key is absent,
  and the same for \<open>description\<close>; \<open>content_length\<close> is \<open>len(text or "")\<close> and
  \<open>markdown_length\<close> is \<open>len(markdown or "")\<close>.
\<close>

theorem make_result_fields:
  assumes "py_len (py_or (dict_get d ''text'' JNull) (JStr [])) = Inr n"
      and "py_len (py_or (dict_get d ''markdown'' JNull) (JStr [])) = Inr m"
  shows "record_outcome u (JObj d, None) st =
           Inr (st\<lparr>results := results st @
                  [\<lparr>url = u,
                    title = (case map_of d ''title'' of None \<Rightarrow> JStr ''N/A'' | Some v \<Rightarrow> v),
                    description = (case map_of d ''description'' of None \<Rightarrow> JStr ''N/A'' | Some v \<Rightarrow> v),
                    content_length = n, markdown_length = m, full_result = JObj d\<rparr>]\<rparr>)"
  using assms
  by (simp add: record_outcome_def make_result_def field_length_or dict_get_def)

theorem make_result_fields_witness:
  "py_len (py_or (dict_get scenario_payload ''text'' JNull) (JStr [])) = Inr 5 \<and>
   py_len (py_or (dict_get scenario_payload ''markdown'' JNull) (JStr [])) = Inr 0 \<and>
   record_outcome ''https://a.com'' (JObj scenario_payload, None) init_state =
     Inr (init_state\<lparr>results :=
            [\<lparr>url = ''https://a.com'', title = JStr ''Example'', description = JStr ''N/A'',
              content_length = 5, markdown_length = 0, full_result = JObj scenario_payload\<rparr>]\<rparr>)"
proof -
  have a: "py_len (py_or (dict_get scenario_payload ''text'' JNull) (JStr [])) = Inr 5"
    by (simp add: scenario_payload_def dict_get_def py_or_def)
  have b: "py_len (py_or (dict_get scenario_payload ''markdown'' JNull) (JStr [])) = Inr 0"
    by (simp add: scenario_payload_def dict_get_def py_or_def)
  have c: "map_of scenario_payload ''title'' = Some (JStr ''Example'')"
          "map_of scenario_payload ''description'' = None"
    by (simp_all add: scenario_payload_def)
  from make_result_fields[OF a b, of "''https://a.com''" init_state] a b c
  show ?thesis by (simp add: init_state_def)
qed

text \<open>
  Claim C6 as stated fails on a payload whose \<open>title\<close> is present and empty: the record
  holds the empty title, where \<open>title or "N/A"\<close> is \<open>N/A\<close>.
\<close>

theorem title_or_default_counterexample:
  "make_result ''https://a.com'' (JObj [(''title'', JStr [])]) =
     Inr \<lparr>url = ''https://a.com'', title = JStr [], description = JStr ''N/A'',
          content_length = 0, markdown_length = 0, full_result = JObj [(''title'', JStr [])]\<rparr> \<and>
   py_or (dict_get [(''title'', JStr [])] ''title'' JNull) (JStr ''N/A'') = JStr ''N/A''"
  by (simp add: make_result_def field_length_def dict_get_def py_or_def)

section \<open>The URL extractor: column selection and dropped cells\<close>

lemma py_in_sublist: "py_in p s = sublist p s"
  by (induction s) (simp_all add: sublist_Cons_right)

lemma url_columns_Inr:
  "url_columns ls = Inr found \<Longrightarrow> list_all is_str ls \<and> found = filter names_url ls"
proof (induction ls arbitrary: found)
  case Nil
  then show ?case by simp
next
  case (Cons l ls)
  then show ?case
    by (cases l) (auto simp: is_str_def names_url_def py_in_sublist split: sum.splits if_splits)
qed

lemma url_columns_strs:
  "list_all is_str ls \<Longrightarrow> url_columns ls = Inr (filter names_url ls)"
proof (induction ls)
  case Nil
  then show ?case by simp
next
  case (Cons l ls)
  then show ?case
    by (cases l) (auto simp: is_str_def names_url_def py_in_sublist)
qed

lemma find_filter_hd:
  "find P xs = (case filter P xs of [] \<Rightarrow> None | x # ys \<Rightarrow> Some x)"
  by (induction xs) auto

lemma filter_labels:
  "filter P (map fst df) = map fst (filter (\<lambda>col. P (fst col)) df)"
  by (induction df) auto

lemma column_tolist_distinct:
  assumes "distinct (map fst df)" and "col \<in> set df"
  shows "column_tolist df (fst col) = Inr (dropna (snd col))"
proof -
  from assms have "filter (\<lambda>c. fst c = fst col) df = [col]"
  proof (induction df)
    case Nil
    then show ?case by simp
  next
    case (Cons a df)
    show ?case
    proof (cases "a = col")
      case True
      with Cons.prems have "fst col \<notin> fst ` set df" by simp
      then have "\<forall>c \<in> set df. fst c \<noteq> fst col" by (metis imageI)
      then have "filter (\<lambda>c. fst c = fst col) df = []" by (simp add: filter_empty_conv)
      with True show ?thesis by simp
    next
      case False
      with Cons.prems have "col \<in> set df" "fst a \<noteq> fst col" by force+
      with Cons show ?thesis by simp
    qed
  qed
  then show ?thesis by (simp add: column_tolist_def)
qed

lemma column_tolist_Inr:
  assumes "column_tolist df c = Inr urls" and "col \<in> set df" and "fst col = c"
  shows "urls = dropna (snd col)"
proof -
  from assms(1) obtain col' where f: "filter (\<lambda>x. fst x = c) df = [col']" and u: "urls = dropna (snd col')"
    by (auto simp: column_tolist_def split: list.splits)
  from assms(2,3) have "col \<in> set (filter (\<lambda>x. fst x = c) df)" by simp
  with f have "col = col'" by simp
  with u show ?thesis by simp
qed

text \<open>
  Claim C3, amended. For a table with at least one column, whose labels are all
  \<open>str\<close> and distinct (as the parsers make them), the extractor takes the leftmost
  column whose name contains \<open>url\<close> in any case, with no warning; when no name contains
  \<open>url\<close> it takes the leftmost column and gives the warning. In both cases it returns
  the list of URLs, not an error.
\<close>

theorem url_column_selection:
  assumes "df \<noteq> []" and "list_all (\<lambda>col. is_str (fst col)) df" and "distinct (map fst df)"
  shows "after_read (Inr df) =
           (case find (\<lambda>col. names_url (fst col)) df of
              Some col \<Rightarrow> ([], Some (dropna (snd col)))
            | None \<Rightarrow> ([WarnNoUrlColumn (fst (hd df))], Some (dropna (snd (hd df)))))"
proof -
  from assms(2) have "list_all is_str (map fst df)" by (simp add: list_all_iff)
  then have u: "url_columns (map fst df) = Inr (map fst (filter (\<lambda>col. names_url (fst col)) df))"
    by (simp add: url_columns_strs filter_labels)
  show ?thesis
  proof (cases "filter (\<lambda>col. names_url (fst col)) df")
    case Nil
    from assms(1) obtain c cs where df: "df = c # cs" by (cases df) auto
    then have "c \<in> set df" by simp
    from column_tolist_distinct[OF assms(3) this] Nil u df show ?thesis
      by (simp add: after_read_def extract_urls_def find_filter_hd)
  next
    case (Cons col cols)
    then have "col \<in> set (filter (\<lambda>col. names_url (fst col)) df)" by simp
    then have "col \<in> set df" by simp
    from column_tolist_distinct[OF assms(3) this] Cons u show ?thesis
      by (simp add: after_read_def extract_urls_def find_filter_hd)
  qed
qed

theorem url_column_selection_witness:
  "sample_table \<noteq> [] \<and> list_all (\<lambda>col. is_str (fst col)) sample_table \<and> distinct (map fst sample_table) \<and>
   after_read (Inr sample_table) = ([], Some [CStr ''https://a.com'', CStr ''https://b.com'']) \<and>
   plain_table \<noteq> [] \<and> list_all (\<lambda>col. is_str (fst col)) plain_table \<and> distinct (map fst plain_table) \<and>
   after_read (Inr plain_table) = ([WarnNoUrlColumn (LStr ''Website'')], Some [CStr ''https://a.com''])"
proof -
  have a: "sample_table \<noteq> []" "list_all (\<lambda>col. is_str (fst col)) sample_table" "distinct (map fst sample_table)"
    by (simp_all add: sample_table_def is_str_def)
  have b: "plain_table \<noteq> []" "list_all (\<lambda>col. is_str (fst col)) plain_table" "distinct (map fst plain_table)"
    by (simp_all add: plain_table_def is_str_def)
  have f1: "find (\<lambda>col. names_url (fst col)) sample_table =
              Some (LStr ''Page URL'', [CStr ''https://a.com'', NaN, CStr ''https://b.com''])"
    by code_simp
  have f2: "find (\<lambda>col. names_url (fst col)) plain_table = None"
    by code_simp
  have h: "hd plain_table = (LStr ''Website'', [CStr ''https://a.com'', NaN])"
    by (simp add: plain_table_def)
  from url_column_selection[OF a] url_column_selection[OF b] a b f1 f2 h show ?thesis
    by (simp add: dropna_def)
qed

text \<open>
  Claim C3 as stated fails on a table with no column, where \<open>df.columns[0]\<close> raises and
  the extractor reports a read error, and on a table with a column named \<open>URL\<close> and a
  numeric label, where \<open>col.lower()\<close> raises and the extractor reports a read error.
\<close>

theorem url_column_selection_counterexample:
  "after_read (Inr []) = ([ErrReadingFile IndexError], None) \<and>
   after_read (Inr [(LStr ''URL'', [CStr ''https://a.com'']), (LNum 2024, [CStr ''x''])]) =
     ([ErrReadingFile AttributeError], None)"
  by code_simp


lemma after_read_Some:
  assumes "after_read (Inr df) = (ns, Some urls)"
  shows "\<exists>col. selected_column df = Some col \<and> col \<in> set df \<and> urls = dropna (snd col)"
proof -
  from assms have e: "extract_urls df = (ns, Inr urls)"
    by (auto simp: after_read_def split: prod.splits sum.splits)
  then obtain found where f: "url_columns (map fst df) = Inr found"
    by (auto simp: extract_urls_def split: sum.splits)
  from url_columns_Inr[OF f] have found: "found = map fst (filter (\<lambda>col. names_url (fst col)) df)"
    by (simp add: filter_labels)
  show ?thesis
  proof (cases "filter (\<lambda>col. names_url (fst col)) df")
    case Nil
    with e f found obtain col cols where df: "df = col # cols"
      and t: "column_tolist df (fst col) = Inr urls"
      by (cases df) (auto simp: extract_urls_def)
    from df Nil have "selected_column df = Some col"
      by (simp add: selected_column_def find_filter_hd)
    moreover from df have "col \<in> set df" by simp
    moreover from column_tolist_Inr[OF t this] have "urls = dropna (snd col)" by simp
    ultimately show ?thesis by blast
  next
    case (Cons col cols)
    with e f found have t: "column_tolist df (fst col) = Inr urls"
      by (simp add: extract_urls_def)
    from Cons have "selected_column df = Some col"
      by (simp add: selected_column_def find_filter_hd)
    moreover from Cons have "col \<in> set (filter (\<lambda>col. names_url (fst col)) df)" by simp
    then have "col \<in> set df" by simp
    moreover from column_tolist_Inr[OF t this] have "urls = dropna (snd col)" by simp
    ultimately show ?thesis by blast
  qed
qed

text \<open>
  Claim C4. Whenever the extractor returns a list, the list is the selected column
  without its missing cells, in row order: it is no longer than the column, holds no
  \<open>NaN\<close>, and holds no empty text when the table holds none.
\<close>

theorem extracted_urls_keep_filled_cells:
  assumes "after_read (Inr df) = (ns, Some urls)"
  shows "\<exists>col. selected_column df = Some col \<and>
           urls = filter (\<lambda>c. c \<noteq> NaN) (snd col) \<and>
           subseq urls (snd col) \<and>
           length urls \<le> length (snd col) \<and>
           NaN \<notin> set urls \<and>
           (no_empty_text df \<longrightarrow> CStr [] \<notin> set urls)"
proof -
  from after_read_Some[OF assms] obtain col where
    c: "selected_column df = Some col" "col \<in> set df" "urls = dropna (snd col)"
    by blast
  from c(2) have "no_empty_text df \<longrightarrow> CStr [] \<notin> set (snd col)"
    by (auto simp: no_empty_text_def list_all_iff)
  with c show ?thesis
    by (intro exI[of _ col]) (auto simp: dropna_def)
qed

theorem extracted_urls_keep_filled_cells_witness:
  "after_read (Inr sample_table) = ([], Some [CStr ''https://a.com'', CStr ''https://b.com'']) \<and>
   no_empty_text sample_table \<and>
   (\<exists>col. selected_column sample_table = Some col \<and>
      [CStr ''https://a.com'', CStr ''https://b.com''] = filter (\<lambda>c. c \<noteq> NaN) (snd col) \<and>
      length [CStr ''https://a.com'', CStr ''https://b.com''] \<le> length (snd col) \<and>
      NaN \<notin> set [CStr ''https://a.com'', CStr ''https://b.com''] \<and>
      CStr [] \<notin> set [CStr ''https://a.com'', CStr ''https://b.com''])"
proof -
  have a: "after_read (Inr sample_table) = ([], Some [CStr ''https://a.com'', CStr ''https://b.com''])"
    by code_simp
  have b: "no_empty_text sample_table"
    by (simp add: no_empty_text_def sample_table_def)
  from extracted_urls_keep_filled_cells[OF a] a b show ?thesis
    by blast
qed

section \<open>Unsupported files and the downloads of a run without results\<close>

lemma py_split_no_sep: "sep \<notin> set s \<Longrightarrow> py_split sep s = [s]"
  by (induction s) auto

lemma py_split_at_sep:
  "\<exists>xs. xs \<noteq> [] \<and> py_split sep (a @ sep # b) = xs @ py_split sep b"
proof (induction a)
  case Nil
  have "py_split sep ([] @ sep # b) = [[]] @ py_split sep b" by simp
  then show ?case by blast
next
  case (Cons c a)
  then obtain xs where xs: "xs \<noteq> []" "py_split sep (a @ sep # b) = xs @ py_split sep b"
    by blast
  then obtain w ws where w: "xs = w # ws" by (cases xs) auto
  show ?case
  proof (cases "c = sep")
    case True
    with xs have "py_split sep ((c # a) @ sep # b) = ([] # xs) @ py_split sep b" by simp
    then show ?thesis by blast
  next
    case False
    with xs w have "py_split sep ((c # a) @ sep # b) = ((c # w) # ws) @ py_split sep b" by simp
    then show ?thesis by blast
  qed
qed

lemma file_extension_after_last_dot:
  assumes "CHR ''.'' \<notin> set ext"
  shows "file_extension (stem @ CHR ''.'' # ext) = lower ext"
proof -
  from py_split_at_sep[of "CHR ''.''" stem ext] obtain xs where
    "py_split CHR ''.'' (stem @ CHR ''.'' # ext) = xs @ py_split CHR ''.'' ext" by blast
  with py_split_no_sep[OF assms] show ?thesis
    by (simp add: file_extension_def)
qed

lemma unsupported_extension:
  assumes "file_extension (name f) \<notin> {''csv'', ''xlsx'', ''xls''}"
  shows "read_urls_from_file f = ([ErrUnsupportedFormat], None)"
  using assms by (simp add: read_urls_from_file_def)

text \<open>
  Claim C8. When the text after the last dot of the file name, in lower case, is none
  of \<open>csv\<close>, \<open>xlsx\<close> and \<open>xls\<close>, the extractor shows the unsupported-format error and
  returns \<open>None\<close>: no URL is extracted, the loop is not started and no HTTP call is made.
\<close>

theorem unsupported_extension_is_fatal:
  assumes "name f = stem @ CHR ''.'' # ext" and "CHR ''.'' \<notin> set ext"
      and "lower ext \<notin> {''csv'', ''xlsx'', ''xls''}"
  shows "read_urls_from_file f = ([ErrUnsupportedFormat], None) \<and>
         app net cfg (Some f) clicked = ([ErrUnsupportedFormat], NotStarted) \<and>
         http_calls (snd (app net cfg (Some f) clicked)) = []"
proof -
  from assms have "file_extension (name f) \<notin> {''csv'', ''xlsx'', ''xls''}"
    by (simp add: file_extension_after_last_dot)
  then have "read_urls_from_file f = ([ErrUnsupportedFormat], None)"
    by (rule unsupported_extension)
  then show ?thesis
    by (simp add: app_def http_calls_def)
qed

theorem unsupported_extension_is_fatal_witness:
  "name notes_file = ''my.urls'' @ CHR ''.'' # ''TXT'' \<and> CHR ''.'' \<notin> set ''TXT'' \<and>
   lower ''TXT'' \<notin> {''csv'', ''xlsx'', ''xls''} \<and>
   read_urls_from_file notes_file = ([ErrUnsupportedFormat], None) \<and>
   app scenario_net scenario_cfg (Some notes_file) True = ([ErrUnsupportedFormat], NotStarted) \<and>
   http_calls (snd (app scenario_net scenario_cfg (Some notes_file) True)) = []"
proof -
  have a: "name notes_file = ''my.urls'' @ CHR ''.'' # ''TXT''"
    by (simp add: notes_file_def)
  have b: "CHR ''.'' \<notin> set ''TXT''" by simp
  have "lower ''TXT'' = ''txt''" by code_simp
  then have c: "lower ''TXT'' \<notin> {''csv'', ''xlsx'', ''xls''}" by simp
  from unsupported_extension_is_fatal[OF a b c, of scenario_net scenario_cfg True] a b c
  show ?thesis by blast
qed

lemma run_no_results_errors:
  assumes "run net cfg urls = Inr st" and "urls \<noteq> []" and "results st = []"
  shows "errors st \<noteq> []"
proof -
  from loop_counts[of net cfg "length urls" 0 urls init_state st] assms(1)
  have "length (results st) + length (errors st) = length urls"
    by (simp add: run_def init_state_def)
  with assms(2,3) show ?thesis by auto
qed

text \<open>
  Claim C10. When the results are empty, the only download offered is the errors CSV,
  and only if there are errors: neither the summary CSV nor the aggregate JSON with the
  run summary is created. A run over at least one URL in which every URL failed offers
  the errors CSV and nothing else.
\<close>

theorem no_summary_export_without_results:
  assumes "results st = []"
  shows "present cfg n st = ((if errors st = [] then [] else [ErrorsCsv (errors st)]), None) \<and>
         (run net cfg urls = Inr st \<and> urls \<noteq> [] \<longrightarrow>
            present cfg (length urls) st = ([ErrorsCsv (errors st)], None))"
proof -
  have p: "present cfg m st = ((if errors st = [] then [] else [ErrorsCsv (errors st)]), None)" for m
    using assms
    by (simp add: present_def summary_tab_def errors_tab_def all_results_def and_then_def)
  moreover have "errors st \<noteq> []" if "run net cfg urls = Inr st" "urls \<noteq> []"
    using run_no_results_errors[OF that assms] .
  ultimately show ?thesis by simp
qed

theorem no_summary_export_without_results_witness:
  "\<exists>st. run failing_net scenario_cfg scenario_urls = Inr st \<and> scenario_urls \<noteq> [] \<and>
        results st = [] \<and> length (errors st) = 3 \<and>
        present scenario_cfg (length scenario_urls) st = ([ErrorsCsv (errors st)], None)"
proof -
  have "case run failing_net scenario_cfg scenario_urls of
          Inl x \<Rightarrow> False
        | Inr st \<Rightarrow> results st = [] \<and> length (errors st) = 3"
    by code_simp
  then obtain st where st: "run failing_net scenario_cfg scenario_urls = Inr st"
    and r: "results st = []" and e: "length (errors st) = 3"
    by (auto split: sum.splits)
  have n: "scenario_urls \<noteq> []" by (simp add: scenario_urls_def)
  from no_summary_export_without_results[OF r, of scenario_cfg "length scenario_urls" failing_net scenario_urls]
    st r e n
  show ?thesis by blast
qed

section \<open>Runs that go through the whole list\<close>

lemma make_result_ok:
  assumes "payload_ok j"
  shows "\<exists>r. make_result u j = Inr r"
proof -
  from assms obtain d where j: "j = JObj d"
    and t: "has_len_or_falsy (dict_get d ''text'' JNull)"
    and m: "has_len_or_falsy (dict_get d ''markdown'' JNull)"
    by (auto simp: payload_ok_def split: json.splits)
  from t obtain n where "field_length (JObj d) ''text'' = Inr n"
    by (auto simp: field_length_or has_len_or_falsy_def split: sum.splits)
  moreover from m obtain k where "field_length (JObj d) ''markdown'' = Inr k"
    by (auto simp: field_length_or has_len_or_falsy_def split: sum.splits)
  ultimately show ?thesis using j by (simp add: make_result_def)
qed

lemma record_outcome_ok:
  assumes "reply_ok (send (make_request u key md))"
  shows "\<exists>st'. record_outcome u (scrape_url send u key md) st = Inr st'"
proof (cases "interaction_fails (send (make_request u key md))")
  case True
  from assms have "message_given (send (make_request u key md))"
    by (simp add: reply_ok_def)
  from scrape_url_failure[of send u key md, OF True this] show ?thesis
    by (auto simp: record_outcome_def)
next
  case False
  then obtain r j where r: "send (make_request u key md) = Response r"
    "\<not> (400 \<le> status_code r \<and> status_code r < 600)" "resp_body r = JsonBody j"
    by (auto simp: interaction_fails_def split: http_reply.splits body.splits)
  with assms have "payload_ok j" by (simp add: reply_ok_def)
  from make_result_ok[OF this, of u] obtain res where "make_result u j = Inr res" by blast
  moreover from r raise_for_status_None[OF r(2)] have "scrape_url send u key md = (j, None)"
    by (simp add: scrape_url_def)
  ultimately show ?thesis by (simp add: record_outcome_def)
qed

lemma loop_completes:
  "well_behaved net cfg i us \<Longrightarrow> \<exists>st'. scrape_loop net cfg n i us st = Inr st'"
proof (induction us arbitrary: i st)
  case Nil
  then show ?case by simp
next
  case (Cons c rest)
  from Cons.prems have nn: "0 \<le> rate_limit cfg" by (simp add: well_behaved_def)
  from Cons.prems obtain u where c: "c = CStr u"
    and ok: "reply_ok (net i (make_request u (api_key cfg) (include_markdown cfg)))"
    by (cases c) (simp_all add: well_behaved_def)
  from record_outcome_ok[of "net i" u "api_key cfg" "include_markdown cfg" "announce cfg n i u st", OF ok]
  obtain st1 where r: "record_outcome u (scrape_url (net i) u (api_key cfg) (include_markdown cfg))
      (announce cfg n i u st) = Inr st1" by blast
  from Cons.prems have "well_behaved net cfg (i + 1) rest"
    by (simp add: well_behaved_def)
  from Cons.IH[OF this] c r nn show ?case by simp
qed

lemma run_completes: "well_behaved net cfg 0 urls \<Longrightarrow> \<exists>st. run net cfg urls = Inr st"
  by (simp add: run_def loop_completes)

lemma scenario_well_behaved: "well_behaved scenario_net scenario_cfg 0 scenario_urls"
  by (simp add: well_behaved_def scenario_cfg_def scenario_urls_def scenario_net_def reply_ok_def
      message_given_def ok_response_def payload_ok_def has_len_or_falsy_def dict_get_def py_or_def)

section \<open>Runs that an exception leaves, and every run\<close>

lemma loop_Cons_cases:
  obtains
    (bad_cell) "scrape_loop net cfg n i (c # rest) st = Inl (TypeError, st)"
  | (raised) u e where "c = CStr u"
      "scrape_loop net cfg n i (c # rest) st = Inl (e, announce cfg n i u st)"
  | (bad_sleep) u st1 where "c = CStr u"
      "record_outcome u (scrape_url (net i) u (api_key cfg) (include_markdown cfg))
         (announce cfg n i u st) = Inr st1"
      "int i < int n - 1"
      "scrape_loop net cfg n i (c # rest) st = Inl (ValueError, st1)"
  | (continue) u st1 where "c = CStr u"
      "record_outcome u (scrape_url (net i) u (api_key cfg) (include_markdown cfg))
         (announce cfg n i u st) = Inr st1"
      "scrape_loop net cfg n i (c # rest) st =
         scrape_loop net cfg n (i + 1) rest
           (if int i < int n - 1 then st1\<lparr>trace := trace st1 @ [Sleep (rate_limit cfg)]\<rparr> else st1)"
proof (cases c)
  case (CStr u)
  show ?thesis
  proof (cases "record_outcome u (scrape_url (net i) u (api_key cfg) (include_markdown cfg))
      (announce cfg n i u st)")
    case (Inl e)
    with CStr show ?thesis by (intro raised[of u e]) simp_all
  next
    case (Inr st1)
    show ?thesis
    proof (cases "int i < int n - 1 \<and> rate_limit cfg < 0")
      case True
      with CStr Inr show ?thesis by (intro bad_sleep[of u st1]) simp_all
    next
      case False
      with CStr Inr show ?thesis by (intro continue[of u st1]) auto
    qed
  qed
next
  case NaN
  then show ?thesis by (intro bad_cell) simp
next
  case (CNum q)
  then show ?thesis by (intro bad_cell) simp
qed

lemma record_outcome_outcomes:
  "record_outcome u out st = Inr st' \<Longrightarrow> outcomes st' = outcomes st + 1"
  by (drule record_outcome_cases) (auto simp: outcomes_def)

lemma outcomes_announce [simp]: "outcomes (announce cfg n i u st) = outcomes st"
  by (simp add: outcomes_def announce_def)

lemma outcomes_trace_update [simp]: "outcomes (st\<lparr>trace := t\<rparr>) = outcomes st"
  by (simp add: outcomes_def)

lemma loop_outcomes:
  assumes "i + length us = n"
  shows "(\<forall>st'. scrape_loop net cfg n i us st = Inr st' \<longrightarrow> outcomes st' = outcomes st + length us) \<and>
         (\<forall>e st'. scrape_loop net cfg n i us st = Inl (e, st') \<longrightarrow>
            outcomes st \<le> outcomes st' \<and> outcomes st' < outcomes st + length us)"
  using assms
proof (induction us arbitrary: i st)
  case Nil
  then show ?case by simp
next
  case (Cons c rest)
  show ?case
  proof (cases rule: loop_Cons_cases[of net cfg n i c rest st])
    case bad_cell
    then show ?thesis by simp
  next
    case (raised u e)
    then show ?thesis by simp
  next
    case (bad_sleep u st1)
    from bad_sleep(3) Cons.prems have "rest \<noteq> []" by auto
    with bad_sleep record_outcome_outcomes[OF bad_sleep(2)] show ?thesis by simp
  next
    case (continue u st1)
    from Cons.prems have n: "i + 1 + length rest = n" by simp
    from record_outcome_outcomes[OF continue(2)]
    have o: "outcomes (if int i < int n - 1 then st1\<lparr>trace := trace st1 @ [Sleep (rate_limit cfg)]\<rparr> else st1)
               = outcomes st + 1" by simp
    from Cons.IH[OF n, of "if int i < int n - 1 then st1\<lparr>trace := trace st1 @ [Sleep (rate_limit cfg)]\<rparr> else st1"]
    show ?thesis
      unfolding continue(3) o by auto
  qed
qed


lemma final_state_simps [simp]:
  "final_state (Inr st) = st" "final_state (Inl (e, st)) = st"
  by (simp_all add: final_state_def)

lemma record_outcome_order:
  assumes "record_outcome u (scrape_url (net i) u (api_key cfg) (include_markdown cfg))
             (announce cfg n i u st) = Inr st1"
  shows "(url_failed net cfg (i, CStr u) \<and>
            map (\<lambda>r. CStr (url r)) (results st1) = map (\<lambda>r. CStr (url r)) (results st) \<and>
            map (\<lambda>e. CStr (err_url e)) (errors st1) = map (\<lambda>e. CStr (err_url e)) (errors st) @ [CStr u]) \<or>
         (\<not> url_failed net cfg (i, CStr u) \<and>
            map (\<lambda>r. CStr (url r)) (results st1) = map (\<lambda>r. CStr (url r)) (results st) @ [CStr u] \<and>
            map (\<lambda>e. CStr (err_url e)) (errors st1) = map (\<lambda>e. CStr (err_url e)) (errors st))"
  using record_outcome_cases[OF assms]
  by (auto simp: announce_def url_failed_def make_result_url)

lemma loop_order:
  "\<exists>k \<le> length us.
     outcomes (final_state (scrape_loop net cfg n i us st)) = outcomes st + k \<and>
     map (\<lambda>r. CStr (url r)) (results (final_state (scrape_loop net cfg n i us st))) =
       map (\<lambda>r. CStr (url r)) (results st) @
       map snd (filter (\<lambda>ic. \<not> url_failed net cfg ic) (enumerate i (take k us))) \<and>
     map (\<lambda>e. CStr (err_url e)) (errors (final_state (scrape_loop net cfg n i us st))) =
       map (\<lambda>e. CStr (err_url e)) (errors st) @
       map snd (filter (url_failed net cfg) (enumerate i (take k us)))"
proof (induction us arbitrary: i st)
  case Nil
  then show ?case by simp
next
  case (Cons c rest)
  show ?case
  proof (cases rule: loop_Cons_cases[of net cfg n i c rest st])
    case bad_cell
    then show ?thesis by (intro exI[of _ 0]) simp
  next
    case (raised u e)
    then show ?thesis by (intro exI[of _ 0]) (simp add: announce_def)
  next
    case (bad_sleep u st1)
    from record_outcome_order[where net = net and i = i and cfg = cfg and n = n and u = u and st = st and ?st1.0 = st1, OF bad_sleep(2)] record_outcome_outcomes[OF bad_sleep(2)] bad_sleep(1,4)
    show ?thesis by (intro exI[of _ 1]) auto
  next
    case (continue u st1)
    let ?st2 = "if int i < int n - 1 then st1\<lparr>trace := trace st1 @ [Sleep (rate_limit cfg)]\<rparr> else st1"
    from Cons.IH[of "i + 1" ?st2] obtain k where k: "k \<le> length rest"
      "outcomes (final_state (scrape_loop net cfg n (i + 1) rest ?st2)) = outcomes ?st2 + k"
      "map (\<lambda>r. CStr (url r)) (results (final_state (scrape_loop net cfg n (i + 1) rest ?st2))) =
         map (\<lambda>r. CStr (url r)) (results ?st2) @
         map snd (filter (\<lambda>ic. \<not> url_failed net cfg ic) (enumerate (i + 1) (take k rest)))"
      "map (\<lambda>e. CStr (err_url e)) (errors (final_state (scrape_loop net cfg n (i + 1) rest ?st2))) =
         map (\<lambda>e. CStr (err_url e)) (errors ?st2) @
         map snd (filter (url_failed net cfg) (enumerate (i + 1) (take k rest)))"
      by blast
    have r2: "results ?st2 = results st1" "errors ?st2 = errors st1" "outcomes ?st2 = outcomes st + 1"
      using record_outcome_outcomes[OF continue(2)] by simp_all
    from record_outcome_order[where net = net and i = i and cfg = cfg and n = n and u = u and st = st and ?st1.0 = st1, OF continue(2)] k r2 continue(1)
    show ?thesis
      unfolding continue(3)
      by (intro exI[of _ "Suc k"]) auto
  qed
qed

lemma loop_posts:
  "\<exists>j \<le> length us.
     map (\<lambda>r. CStr (data_url r)) (posts (trace (final_state (scrape_loop net cfg n i us st)))) =
       map (\<lambda>r. CStr (data_url r)) (posts (trace st)) @ take j us"
proof (induction us arbitrary: i st)
  case Nil
  then show ?case by simp
next
  case (Cons c rest)
  have p: "map (\<lambda>r. CStr (data_url r)) (posts (trace (announce cfg n i u st))) =
      map (\<lambda>r. CStr (data_url r)) (posts (trace st)) @ [CStr u]" for u
    by (simp add: announce_def posts_append make_request_def)
  show ?case
  proof (cases rule: loop_Cons_cases[of net cfg n i c rest st])
    case bad_cell
    then show ?thesis by (intro exI[of _ 0]) simp
  next
    case (raised u e)
    with p[of u] show ?thesis by (intro exI[of _ 1]) simp
  next
    case (bad_sleep u st1)
    from record_outcome_cases[OF bad_sleep(2)] have "trace st1 = trace (announce cfg n i u st)" by simp
    with p[of u] bad_sleep(1,4) show ?thesis by (intro exI[of _ 1]) simp
  next
    case (continue u st1)
    let ?st2 = "if int i < int n - 1 then st1\<lparr>trace := trace st1 @ [Sleep (rate_limit cfg)]\<rparr> else st1"
    from record_outcome_cases[OF continue(2)] have "trace st1 = trace (announce cfg n i u st)" by simp
    with p[of u] have p2: "map (\<lambda>r. CStr (data_url r)) (posts (trace ?st2)) =
        map (\<lambda>r. CStr (data_url r)) (posts (trace st)) @ [CStr u]"
      by (simp add: posts_append)
    from Cons.IH[of "i + 1" ?st2] obtain j where "j \<le> length rest"
      "map (\<lambda>r. CStr (data_url r)) (posts (trace (final_state (scrape_loop net cfg n (i + 1) rest ?st2)))) =
         map (\<lambda>r. CStr (data_url r)) (posts (trace ?st2)) @ take j rest"
      by blast
    with p2 continue(1) show ?thesis
      unfolding continue(3)
      by (intro exI[of _ "Suc j"]) simp
  qed
qed

lemma loop_sleeps_any:
  assumes "i + length us = n"
  shows "\<exists>m \<le> length us - 1.
     sleeps (trace (final_state (scrape_loop net cfg n i us st))) =
       sleeps (trace st) @ replicate m (rate_limit cfg)"
  using assms
proof (induction us arbitrary: i st)
  case Nil
  then show ?case by simp
next
  case (Cons c rest)
  show ?case
  proof (cases rule: loop_Cons_cases[of net cfg n i c rest st])
    case bad_cell
    then show ?thesis by (intro exI[of _ 0]) simp
  next
    case (raised u e)
    then show ?thesis by (intro exI[of _ 0]) (simp add: announce_def sleeps_append)
  next
    case (bad_sleep u st1)
    from record_outcome_cases[OF bad_sleep(2)] have "trace st1 = trace (announce cfg n i u st)" by simp
    with bad_sleep(4) show ?thesis by (intro exI[of _ 0]) (simp add: announce_def sleeps_append)
  next
    case (continue u st1)
    let ?st2 = "if int i < int n - 1 then st1\<lparr>trace := trace st1 @ [Sleep (rate_limit cfg)]\<rparr> else st1"
    from Cons.prems have n: "i + 1 + length rest = n" by simp
    from record_outcome_cases[OF continue(2)] have t: "sleeps (trace st1) = sleeps (trace st)"
      by (simp add: announce_def sleeps_append)
    from Cons.IH[OF n, of ?st2] obtain m where m: "m \<le> length rest - 1"
      "sleeps (trace (final_state (scrape_loop net cfg n (i + 1) rest ?st2))) =
         sleeps (trace ?st2) @ replicate m (rate_limit cfg)"
      by blast
    show ?thesis
    proof (cases "int i < int n - 1")
      case True
      with n have "rest \<noteq> []" by auto
      with m(1) have "Suc m \<le> length (c # rest) - 1" by (cases rest) auto
      moreover from m(2) t True
      have "sleeps (trace (final_state (scrape_loop net cfg n i (c # rest) st))) =
          sleeps (trace st) @ replicate (Suc m) (rate_limit cfg)"
        unfolding continue(3) by (simp add: sleeps_append)
      ultimately show ?thesis by blast
    next
      case False
      with n have "rest = []" by auto
      with m(1) have "m = 0" by simp
      with m(2) t False show ?thesis
        unfolding continue(3) by (intro exI[of _ 0]) simp
    qed
  qed
qed


lemma abort_run: "run abort_net scenario_cfg scenario_urls = Inl (TypeError, aborted_state)"
  by code_simp

text \<open>
  Claim C1, amended. A run that goes through the whole list has one outcome for each
  URL: the number of results plus the number of errors is the number of URLs. A run that
  an exception leaves has recorded fewer outcomes than there are URLs. A run goes through
  the whole list when every URL is text, the delay is not negative and every reply is a
  failure with a message or an object whose \<open>text\<close> and \<open>markdown\<close> are false in a
  condition or have a length.
\<close>

theorem run_one_outcome_per_url:
  "(run net cfg urls = Inr st \<longrightarrow> length (results st) + length (errors st) = length urls) \<and>
   (run net cfg urls = Inl (e, st) \<longrightarrow> length (results st) + length (errors st) < length urls) \<and>
   (well_behaved net cfg 0 urls \<longrightarrow>
      (\<exists>st'. run net cfg urls = Inr st' \<and>
         length (results st') + length (errors st') = length urls))"
proof -
  have o: "outcomes init_state = 0" by (simp add: outcomes_def init_state_def)
  from loop_outcomes[of 0 urls "length urls" net cfg init_state]
  have c: "length (results s) + length (errors s) = length urls" if "run net cfg urls = Inr s" for s
    using that by (simp add: run_def outcomes_def o[unfolded outcomes_def])
  from loop_outcomes[of 0 urls "length urls" net cfg init_state]
  have a: "length (results s) + length (errors s) < length urls" if "run net cfg urls = Inl (x, s)" for x s
    using that by (simp add: run_def outcomes_def o[unfolded outcomes_def])
  from c a run_completes[of net cfg urls] show ?thesis by blast
qed

theorem run_one_outcome_per_url_witness:
  "well_behaved scenario_net scenario_cfg 0 scenario_urls \<and>
   (\<exists>st. run scenario_net scenario_cfg scenario_urls = Inr st \<and>
        length (results st) = 2 \<and> length (errors st) = 1 \<and>
        length (results st) + length (errors st) = length scenario_urls) \<and>
   run abort_net scenario_cfg scenario_urls = Inl (TypeError, aborted_state) \<and>
   length (results aborted_state) + length (errors aborted_state) < length scenario_urls"
proof -
  have "case run scenario_net scenario_cfg scenario_urls of
          Inl x \<Rightarrow> False
        | Inr st \<Rightarrow> length (results st) = 2 \<and> length (errors st) = 1"
    by code_simp
  then obtain st where st: "run scenario_net scenario_cfg scenario_urls = Inr st"
    and "length (results st) = 2" "length (errors st) = 1"
    by (auto split: sum.splits)
  with run_one_outcome_per_url[where net = scenario_net and cfg = scenario_cfg and urls = scenario_urls
      and st = st]
    run_one_outcome_per_url[where net = abort_net and cfg = scenario_cfg and urls = scenario_urls
      and e = TypeError and st = aborted_state]
    scenario_well_behaved abort_run
  show ?thesis by blast
qed

text \<open>
  Claim C1 as stated fails on a run that an exception leaves: of three URLs, one has an
  outcome when \<open>len\<close> raises on the second reply.
\<close>

theorem run_count_counterexample:
  "run abort_net scenario_cfg scenario_urls = Inl (TypeError, aborted_state) \<and>
   length (results aborted_state) + length (errors aborted_state) = 1 \<and>
   length scenario_urls = 3"
  using abort_run by (simp add: aborted_state_def scenario_urls_def)

text \<open>
  Claim C5. In every run, whether it goes through the whole list or an exception
  leaves the loop, the calls made are for an initial part of the URLs in input order, the
  results are the URLs with an outcome that succeeded, in input order, and the errors
  are the URLs with an outcome that failed, in input order. When the run goes through
  the whole list the calls are for all the URLs and every URL has an outcome.
\<close>

theorem run_preserves_input_order:
  "prefix (map (\<lambda>r. CStr (data_url r)) (posts (trace (final_state (run net cfg urls))))) urls \<and>
   map (\<lambda>r. CStr (url r)) (results (final_state (run net cfg urls))) =
     map snd (filter (\<lambda>ic. \<not> url_failed net cfg ic)
       (enumerate 0 (take (outcomes (final_state (run net cfg urls))) urls))) \<and>
   map (\<lambda>e. CStr (err_url e)) (errors (final_state (run net cfg urls))) =
     map snd (filter (url_failed net cfg)
       (enumerate 0 (take (outcomes (final_state (run net cfg urls))) urls))) \<and>
   (run net cfg urls = Inr st \<longrightarrow>
      map (\<lambda>r. CStr (data_url r)) (posts (trace st)) = urls \<and>
      map (\<lambda>r. CStr (url r)) (results st) =
        map snd (filter (\<lambda>ic. \<not> url_failed net cfg ic) (enumerate 0 urls)) \<and>
      map (\<lambda>e. CStr (err_url e)) (errors st) =
        map snd (filter (url_failed net cfg) (enumerate 0 urls)))"
proof -
  have i: "outcomes init_state = 0" "results init_state = []" "errors init_state = []"
    "trace init_state = []"
    by (simp_all add: outcomes_def init_state_def)
  from loop_posts[of urls net cfg "length urls" 0 init_state]
  have p: "prefix (map (\<lambda>r. CStr (data_url r)) (posts (trace (final_state (run net cfg urls))))) urls"
    by (auto simp: run_def i take_is_prefix)
  from loop_order[of urls net cfg "length urls" 0 init_state]
  have o: "map (\<lambda>r. CStr (url r)) (results (final_state (run net cfg urls))) =
     map snd (filter (\<lambda>ic. \<not> url_failed net cfg ic)
       (enumerate 0 (take (outcomes (final_state (run net cfg urls))) urls)))"
    "map (\<lambda>e. CStr (err_url e)) (errors (final_state (run net cfg urls))) =
     map snd (filter (url_failed net cfg)
       (enumerate 0 (take (outcomes (final_state (run net cfg urls))) urls)))"
    by (auto simp: run_def i)
  have c: "map (\<lambda>r. CStr (data_url r)) (posts (trace st)) = urls \<and>
      map (\<lambda>r. CStr (url r)) (results st) =
        map snd (filter (\<lambda>ic. \<not> url_failed net cfg ic) (enumerate 0 urls)) \<and>
      map (\<lambda>e. CStr (err_url e)) (errors st) =
        map snd (filter (url_failed net cfg) (enumerate 0 urls))"
    if "run net cfg urls = Inr st"
    using loop_trace_posts[of net cfg "length urls" 0 urls init_state st]
      loop_results[of net cfg "length urls" 0 urls init_state st] that
    by (simp add: run_def i)
  from p o c show ?thesis by blast
qed

theorem run_preserves_input_order_witness:
  "(\<exists>st. run scenario_net scenario_cfg scenario_urls = Inr st \<and>
        map (\<lambda>r. CStr (data_url r)) (posts (trace st)) = scenario_urls \<and>
        map url (results st) = [''https://a.com'', ''https://b.com''] \<and>
        map err_url (errors st) = [''https://c.com'']) \<and>
   final_state (run abort_net scenario_cfg scenario_urls) = aborted_state \<and>
   prefix (map (\<lambda>r. CStr (data_url r)) (posts (trace aborted_state))) scenario_urls \<and>
   map (\<lambda>r. CStr (data_url r)) (posts (trace aborted_state)) = [CStr ''https://a.com'', CStr ''https://b.com'']"
proof -
  have "case run scenario_net scenario_cfg scenario_urls of
          Inl x \<Rightarrow> False
        | Inr st \<Rightarrow> map url (results st) = [''https://a.com'', ''https://b.com''] \<and>
            map err_url (errors st) = [''https://c.com'']"
    by code_simp
  then obtain st where st: "run scenario_net scenario_cfg scenario_urls = Inr st"
    and r: "map url (results st) = [''https://a.com'', ''https://b.com'']"
        "map err_url (errors st) = [''https://c.com'']"
    by (auto split: sum.splits)
  from run_preserves_input_order[where net = scenario_net and cfg = scenario_cfg and urls = scenario_urls
      and st = st] st
  have 1: "map (\<lambda>r. CStr (data_url r)) (posts (trace st)) = scenario_urls" by blast
  have f: "final_state (run abort_net scenario_cfg scenario_urls) = aborted_state"
    by (simp add: abort_run)
  from run_preserves_input_order[where net = abort_net and cfg = scenario_cfg and urls = scenario_urls] f
  have 2: "prefix (map (\<lambda>r. CStr (data_url r)) (posts (trace aborted_state))) scenario_urls"
    by simp
  have 3: "map (\<lambda>r. CStr (data_url r)) (posts (trace aborted_state)) =
      [CStr ''https://a.com'', CStr ''https://b.com'']"
    by (simp add: aborted_state_def make_request_def)
  from st r 1 f 2 3 show ?thesis
    by (intro conjI exI[of _ st]) simp_all
qed

text \<open>
  Claim C7, amended. In a run that goes through the whole list, each URL but the last
  is followed by one sleep of \<open>rate_limit\<close>, whatever its outcome, so a run over \<open>N\<close> URLs
  sleeps \<open>N - 1\<close> times (\<open>0\<close> times when the list is empty; the subtraction on \<open>nat\<close>
  stops at \<open>0\<close>); when no effect takes negative time and a sleep of \<open>d\<close> takes at least
  \<open>d\<close>, such a run over \<open>N \<ge> 2\<close> URLs takes at least \<open>(N - 1) * rate_limit\<close>. A run that
  an exception leaves has slept at most \<open>N - 1\<close> times, each time for \<open>rate_limit\<close>. A
  run over text URLs with a delay that is not negative and replies that the loop can
  record goes through the whole list.
\<close>

theorem run_sleeps_between_urls:
  "(run net cfg urls = Inr st \<longrightarrow>
      trace st = concat (map (url_events cfg (length urls)) (enumerate 0 urls)) \<and>
      sleeps (trace st) = replicate (length urls - 1) (rate_limit cfg) \<and>
      ((\<forall>k ev. 0 \<le> dur k ev) \<and> (\<forall>k d. d \<le> dur k (Sleep d)) \<and> 2 \<le> length urls \<longrightarrow>
         (of_nat (length urls) - 1) * rate_limit cfg \<le> elapsed dur (trace st))) \<and>
   (run net cfg urls = Inl (e, st) \<longrightarrow>
      (\<exists>m \<le> length urls - 1. sleeps (trace st) = replicate m (rate_limit cfg))) \<and>
   (well_behaved net cfg 0 urls \<longrightarrow>
      (\<exists>st'. run net cfg urls = Inr st' \<and>
         sleeps (trace st') = replicate (length urls - 1) (rate_limit cfg)))"
proof -
  have completed: "trace s = concat (map (url_events cfg (length urls)) (enumerate 0 urls)) \<and>
      sleeps (trace s) = replicate (length urls - 1) (rate_limit cfg) \<and>
      ((\<forall>k ev. 0 \<le> dur k ev) \<and> (\<forall>k d. d \<le> dur k (Sleep d)) \<and> 2 \<le> length urls \<longrightarrow>
         (of_nat (length urls) - 1) * rate_limit cfg \<le> elapsed dur (trace s))"
    if r: "run net cfg urls = Inr s" for s
  proof -
    from r have l: "scrape_loop net cfg (length urls) 0 urls init_state = Inr s"
      by (simp add: run_def)
    from loop_trace[OF l] have t: "trace s = concat (map (url_events cfg (length urls)) (enumerate 0 urls))"
      by (simp add: init_state_def)
    from loop_sleeps[OF l] have s: "sleeps (trace s) = replicate (length urls - 1) (rate_limit cfg)"
      by (simp add: init_state_def)
    have "(of_nat (length urls) - 1) * rate_limit cfg \<le> elapsed dur (trace s)"
      if d: "\<forall>k ev. 0 \<le> dur k ev" "\<forall>k d. d \<le> dur k (Sleep d)" and n: "2 \<le> length urls"
    proof -
      from d have "sum_list (sleeps (trace s)) \<le> elapsed_from dur 0 (trace s)"
        by (intro elapsed_from_sleeps) auto
      moreover from n have "(of_nat (length urls - 1) :: rat) = of_nat (length urls) - 1"
        by (simp add: of_nat_diff)
      ultimately show ?thesis
        by (simp add: s sum_list_replicate elapsed_def)
    qed
    with t s show ?thesis by blast
  qed
  have aborted: "\<exists>m \<le> length urls - 1. sleeps (trace s) = replicate m (rate_limit cfg)"
    if "run net cfg urls = Inl (x, s)" for x s
    using loop_sleeps_any[of 0 urls "length urls" net cfg init_state] that
    by (simp add: run_def init_state_def)
  from completed aborted run_completes[of net cfg urls] show ?thesis by blast
qed

theorem run_sleeps_between_urls_witness:
  "well_behaved scenario_net scenario_cfg 0 scenario_urls \<and>
   (\<exists>st. run scenario_net scenario_cfg scenario_urls = Inr st \<and>
        (\<forall>k ev. 0 \<le> scenario_dur k ev) \<and> (\<forall>k d. d \<le> scenario_dur k (Sleep d)) \<and>
        2 \<le> length scenario_urls \<and>
        sleeps (trace st) = [1, 1] \<and>
        2 \<le> elapsed scenario_dur (trace st)) \<and>
   run abort_net scenario_cfg scenario_urls = Inl (TypeError, aborted_state) \<and>
   (\<exists>m \<le> length scenario_urls - 1. sleeps (trace aborted_state) = replicate m (rate_limit scenario_cfg))"
proof -
  from run_completes[OF scenario_well_behaved]
  obtain st where st: "run scenario_net scenario_cfg scenario_urls = Inr st" by blast
  have d1: "\<forall>k ev. 0 \<le> scenario_dur k ev"
    by (simp add: scenario_dur_def split: event.splits)
  have d2: "\<forall>k d. d \<le> scenario_dur k (Sleep d)"
    by (simp add: scenario_dur_def)
  have n: "2 \<le> length scenario_urls" "length scenario_urls = 3" "rate_limit scenario_cfg = 1"
    by (simp_all add: scenario_urls_def scenario_cfg_def)
  from run_sleeps_between_urls[where net = scenario_net and cfg = scenario_cfg and urls = scenario_urls
      and st = st and dur = scenario_dur] st
  have "sleeps (trace st) = replicate (length scenario_urls - 1) (rate_limit scenario_cfg) \<and>
        ((\<forall>k ev. 0 \<le> scenario_dur k ev) \<and> (\<forall>k d. d \<le> scenario_dur k (Sleep d)) \<and> 2 \<le> length scenario_urls \<longrightarrow>
           (of_nat (length scenario_urls) - 1) * rate_limit scenario_cfg \<le> elapsed scenario_dur (trace st))"
    by blast
  with d1 d2 n have c: "sleeps (trace st) = [1, 1] \<and> 2 \<le> elapsed scenario_dur (trace st)"
    by (simp add: numeral_2_eq_2)
  from run_sleeps_between_urls[where net = abort_net and cfg = scenario_cfg and urls = scenario_urls
      and e = TypeError and st = aborted_state] abort_run
  have a: "\<exists>m \<le> length scenario_urls - 1. sleeps (trace aborted_state) = replicate m (rate_limit scenario_cfg)"
    by blast
  from st d1 d2 n(1) c a abort_run scenario_well_behaved show ?thesis by blast
qed

text \<open>
  Claim C7 as stated fails on a run that an exception leaves: over three URLs the loop
  has slept once, not twice, when \<open>len\<close> raises on the second reply.
\<close>

theorem run_sleeps_counterexample:
  "run abort_net scenario_cfg scenario_urls = Inl (TypeError, aborted_state) \<and>
   sleeps (trace aborted_state) = [1] \<and>
   replicate (length scenario_urls - 1) (rate_limit scenario_cfg) = [1, 1]"
  using abort_run
  by (simp add: aborted_state_def scenario_urls_def scenario_cfg_def numeral_2_eq_2)

end
